theory Spec2Isabelle
  imports Main
begin

section \<open>JavaScript strings\<close>

text \<open>
  A JavaScript string is modelled by the sequence of its Unicode code points
  (\<open>nat\<close>); an unpaired surrogate is a code point in \<open>D800..DFFF\<close>.
  \<open>lit\<close> embeds an ASCII literal of the source.
\<close>

type_synonym jsstring = "nat list"

definition lit :: "string \<Rightarrow> jsstring" where
  "lit s = map of_char s"

datatype jserror = URIError | TypeError | SyntaxError | DocumentError

text \<open>\<open>s.startsWith(p)\<close>.\<close>

definition startsWith :: "jsstring \<Rightarrow> jsstring \<Rightarrow> bool" where
  "startsWith s p \<longleftrightarrow> take (length p) s = p"

text \<open>\<open>s.split(c)\<close> for a one-character separator: never the empty array.\<close>

fun js_split :: "nat \<Rightarrow> jsstring \<Rightarrow> jsstring list" where
  "js_split c [] = [[]]"
| "js_split c (x # xs) =
     (if x = c then [] # js_split c xs
      else (case js_split c xs of
              [] \<Rightarrow> [[x]]
            | s # ss \<Rightarrow> (x # s) # ss))"

text \<open>\<open>a.join(sep)\<close>.\<close>

fun js_join :: "jsstring \<Rightarrow> jsstring list \<Rightarrow> jsstring" where
  "js_join sep [] = []"
| "js_join sep [s] = s"
| "js_join sep (s # t # ss) = s @ sep @ js_join sep (t # ss)"

section \<open>PathCodec: \<open>encodeURIComponent\<close> and the segment decoder\<close>

text \<open>
  \<open>encodeURIComponent\<close> (ECMAScript \<open>Encode\<close> with the unreserved set
  \<open>A-Z a-z 0-9 - _ . ! ~ * ' ( )\<close>): an unreserved character is copied, any other
  code point is written as the \<open>%XX\<close> escapes (upper-case hexadecimal) of its UTF-8
  bytes, and an unpaired surrogate raises \<open>URIError\<close>.
\<close>

definition uriUnreserved :: "nat \<Rightarrow> bool" where
  "uriUnreserved c \<longleftrightarrow>
     (65 \<le> c \<and> c \<le> 90) \<or> (97 \<le> c \<and> c \<le> 122) \<or> (48 \<le> c \<and> c \<le> 57) \<or>
     c = 45 \<or> c = 95 \<or> c = 46 \<or> c = 33 \<or> c = 126 \<or> c = 42 \<or> c = 39 \<or> c = 40 \<or> c = 41"

definition isScalar :: "nat \<Rightarrow> bool" where
  "isScalar c \<longleftrightarrow> c < 0xD800 \<or> (0xE000 \<le> c \<and> c < 0x110000)"

definition utf8 :: "nat \<Rightarrow> nat list" where
  "utf8 c =
     (if c < 0x80 then [c]
      else if c < 0x800 then [0xC0 + c div 64, 0x80 + c mod 64]
      else if c < 0x10000 then
        [0xE0 + c div 4096, 0x80 + (c div 64) mod 64, 0x80 + c mod 64]
      else
        [0xF0 + c div 262144, 0x80 + (c div 4096) mod 64,
         0x80 + (c div 64) mod 64, 0x80 + c mod 64])"

definition hexDigit :: "nat \<Rightarrow> nat" where
  "hexDigit d = (if d < 10 then 48 + d else 55 + d)"

definition pctByte :: "nat \<Rightarrow> jsstring" where
  "pctByte b = [37, hexDigit (b div 16), hexDigit (b mod 16)]"

fun encodeURIComponent :: "jsstring \<Rightarrow> jserror + jsstring" where
  "encodeURIComponent [] = Inr []"
| "encodeURIComponent (c # cs) =
     (if uriUnreserved c then
        (case encodeURIComponent cs of Inl e \<Rightarrow> Inl e | Inr r \<Rightarrow> Inr (c # r))
      else if \<not> isScalar c then Inl URIError
      else
        (case encodeURIComponent cs of
           Inl e \<Rightarrow> Inl e
         | Inr r \<Rightarrow> Inr (concat (map pctByte (utf8 c)) @ r)))"

text \<open>
  Modelled from the spec: \<open>scrapbook.decodeURIComponent\<close> is not among the sources.
  The spec has \<open>fromVirtualUrl\<close> percent-decode each segment and has the resolver never
  raise, so the decoder is total: wherever the escapes of a well-formed UTF-8 sequence
  of a Unicode scalar value start, they are replaced by that code point, and every
  other character is copied.
\<close>

definition hexVal :: "nat \<Rightarrow> nat option" where
  "hexVal h =
     (if 48 \<le> h \<and> h \<le> 57 then Some (h - 48)
      else if 65 \<le> h \<and> h \<le> 70 then Some (h - 55)
      else if 97 \<le> h \<and> h \<le> 102 then Some (h - 87)
      else None)"

text \<open>The byte of an escape \<open>%XY\<close> at the head of the text, with the text after it.\<close>

fun takePct :: "jsstring \<Rightarrow> (nat \<times> jsstring) option" where
  "takePct (p # h1 # h2 # r) =
     (if p = 37 then
        (case (hexVal h1, hexVal h2) of
           (Some a, Some b) \<Rightarrow> Some (16 * a + b, r)
         | _ \<Rightarrow> None)
      else None)"
| "takePct _ = None"

definition isCont :: "nat \<Rightarrow> bool" where
  "isCont b \<longleftrightarrow> 0x80 \<le> b \<and> b < 0xC0"

text \<open>
  The code point whose escaped UTF-8 bytes start the text, with the number of
  characters they take.
\<close>

definition escapedAt :: "jsstring \<Rightarrow> (nat \<times> nat) option" where
  "escapedAt s =
     (case takePct s of
        None \<Rightarrow> None
      | Some (b0, r0) \<Rightarrow>
          if b0 < 0x80 then Some (b0, 3)
          else if 0xC0 \<le> b0 \<and> b0 < 0xE0 then
            (case takePct r0 of
               None \<Rightarrow> None
             | Some (b1, r1) \<Rightarrow>
                 let c = (b0 - 0xC0) * 64 + (b1 - 0x80)
                 in if isCont b1 \<and> 0x80 \<le> c then Some (c, 6) else None)
          else if 0xE0 \<le> b0 \<and> b0 < 0xF0 then
            (case takePct r0 of
               None \<Rightarrow> None
             | Some (b1, r1) \<Rightarrow>
                 (case takePct r1 of
                    None \<Rightarrow> None
                  | Some (b2, r2) \<Rightarrow>
                      let c = (b0 - 0xE0) * 4096 + (b1 - 0x80) * 64 + (b2 - 0x80)
                      in if isCont b1 \<and> isCont b2 \<and> 0x800 \<le> c \<and> isScalar c
                         then Some (c, 9) else None))
          else if 0xF0 \<le> b0 \<and> b0 < 0xF8 then
            (case takePct r0 of
               None \<Rightarrow> None
             | Some (b1, r1) \<Rightarrow>
                 (case takePct r1 of
                    None \<Rightarrow> None
                  | Some (b2, r2) \<Rightarrow>
                      (case takePct r2 of
                         None \<Rightarrow> None
                       | Some (b3, r3) \<Rightarrow>
                           let c = (b0 - 0xF0) * 262144 + (b1 - 0x80) * 4096 +
                                   (b2 - 0x80) * 64 + (b3 - 0x80)
                           in if isCont b1 \<and> isCont b2 \<and> isCont b3 \<and>
                                 0x10000 \<le> c \<and> c < 0x110000
                              then Some (c, 12) else None)))
          else None)"

fun sb_decodeURIComponent :: "jsstring \<Rightarrow> jsstring" where
  "sb_decodeURIComponent [] = []"
| "sb_decodeURIComponent (c # cs) =
     (case escapedAt (c # cs) of
        None \<Rightarrow> c # sb_decodeURIComponent cs
      | Some (cp, n) \<Rightarrow> cp # sb_decodeURIComponent (drop (n - 1) cs))"

text \<open>Sequencing of fallible steps over an array (\<open>Array.prototype.map\<close> with a
  callback that may throw).\<close>

fun mapE :: "('a \<Rightarrow> jserror + 'b) \<Rightarrow> 'a list \<Rightarrow> jserror + 'b list" where
  "mapE f [] = Inr []"
| "mapE f (x # xs) =
     (case f x of
        Inl e \<Rightarrow> Inl e
      | Inr y \<Rightarrow> (case mapE f xs of Inl e \<Rightarrow> Inl e | Inr ys \<Rightarrow> Inr (y # ys)))"

text \<open>
  \<open>viewer.inZipPathToUrl\<close>: the argument may be \<open>undefined\<close> (\<open>None\<close>), which
  \<open>inZipPath || ""\<close> turns into the empty string. The first argument is
  \<open>viewerData.virtualBase\<close>.
\<close>

definition inZipPathToUrl :: "jsstring \<Rightarrow> jsstring option \<Rightarrow> jserror + jsstring" where
  "inZipPathToUrl vb inZipPath =
     (case mapE encodeURIComponent
             (js_split 47 (case inZipPath of None \<Rightarrow> [] | Some p \<Rightarrow> p)) of
        Inl e \<Rightarrow> Inl e
      | Inr segs \<Rightarrow> Inr (vb @ js_join [47] segs))"

text \<open>
  Lines 71 and 72 of \<open>viewer.parseUrl\<close>: the archive path of an absolute URL under
  the virtual base, its query and fragment removed.
\<close>

definition hrefToInZipPath :: "jsstring \<Rightarrow> jsstring \<Rightarrow> jsstring" where
  "hrefToInZipPath vb href =
     js_join [47] (map sb_decodeURIComponent (js_split 47 (drop (length vb) href)))"



section \<open>URL helpers of the scrapbook library\<close>

text \<open>
  Modelled from the spec: \<open>scrapbook.splitUrlByAnchor\<close> and \<open>scrapbook.splitUrl\<close> are
  not among the sources. The spec compares targets "ignoring fragment" and has the
  resolver "strip query/fragment": the fragment starts at the first \<open>#\<close>, the query at
  the first \<open>?\<close> before it.
\<close>

definition splitUrlByAnchor :: "jsstring \<Rightarrow> jsstring \<times> jsstring" where
  "splitUrlByAnchor u = (takeWhile (\<lambda>c. c \<noteq> 35) u, dropWhile (\<lambda>c. c \<noteq> 35) u)"

definition splitUrl :: "jsstring \<Rightarrow> jsstring \<times> jsstring \<times> jsstring" where
  "splitUrl u =
     (case splitUrlByAnchor u of
        (name, hash) \<Rightarrow>
          (takeWhile (\<lambda>c. c \<noteq> 63) name, dropWhile (\<lambda>c. c \<noteq> 63) name, hash))"

section \<open>The browser's URL object\<close>

text \<open>
  A parsed absolute URL: its serialization up to the path, its query and its fragment
  (each absent or present). \<open>href\<close>, \<open>search\<close> and \<open>hash\<close> are the getters of the
  URL interface; assigning the empty string to \<open>search\<close> or \<open>hash\<close> removes the
  component.
\<close>

record jsurl =
  urlMain :: jsstring
  urlQuery :: "jsstring option"
  urlFragment :: "jsstring option"

definition href :: "jsurl \<Rightarrow> jsstring" where
  "href u =
     urlMain u @ (case urlQuery u of None \<Rightarrow> [] | Some q \<Rightarrow> 63 # q)
              @ (case urlFragment u of None \<Rightarrow> [] | Some f \<Rightarrow> 35 # f)"

definition url_search :: "jsurl \<Rightarrow> jsstring" where
  "url_search u = (case urlQuery u of None \<Rightarrow> [] | Some q \<Rightarrow> if q = [] then [] else 63 # q)"

definition url_hash :: "jsurl \<Rightarrow> jsstring" where
  "url_hash u = (case urlFragment u of None \<Rightarrow> [] | Some f \<Rightarrow> if f = [] then [] else 35 # f)"

section \<open>The URL parser and dot segments\<close>

text \<open>
  \<open>new URL\<close> is the browser's. What it does to the path of a URL with an authority, after
  the URL standard: the path is cut at its slashes; a segment \<open>.\<close> is dropped, a segment
  \<open>..\<close> is dropped together with the segment kept before it, and where one of them ends
  the path, the path ends with a slash. The escaped spellings of the dot count as dots.
\<close>

definition singleDot :: "jsstring \<Rightarrow> bool" where
  "singleDot s \<longleftrightarrow> s \<in> {lit ''.'', lit ''%2e'', lit ''%2E''}"

definition doubleDot :: "jsstring \<Rightarrow> bool" where
  "doubleDot s \<longleftrightarrow>
     s \<in> {lit ''..'', lit ''.%2e'', lit ''.%2E'', lit ''%2e.'', lit ''%2E.'',
          lit ''%2e%2e'', lit ''%2e%2E'', lit ''%2E%2e'', lit ''%2E%2E''}"

text \<open>The segments that are kept, and the segments still to be read.\<close>

fun resolveDots :: "jsstring list \<Rightarrow> jsstring list \<Rightarrow> jsstring list" where
  "resolveDots out [] = out"
| "resolveDots out (s # rest) =
     (if doubleDot s then resolveDots (butlast out @ (if rest = [] then [[]] else [])) rest
      else if singleDot s then resolveDots (out @ (if rest = [] then [[]] else [])) rest
      else resolveDots (out @ [s]) rest)"

text \<open>
  A URL \<open>scheme://authority/path\<close>: its part before the path, and the path after its first
  slash.
\<close>

definition splitAuthority :: "jsstring \<Rightarrow> (jsstring \<times> jsstring) option" where
  "splitAuthority u =
     (let scheme = takeWhile (\<lambda>c. c \<noteq> 58) u;
          r = dropWhile (\<lambda>c. c \<noteq> 58) u;
          authority = takeWhile (\<lambda>c. c \<noteq> 47) (drop 3 r);
          path = dropWhile (\<lambda>c. c \<noteq> 47) (drop 3 r)
      in if take 3 r = lit ''://'' \<and> path \<noteq> []
         then Some (scheme @ lit ''://'' @ authority, tl path) else None)"

definition resolveDotSegments :: "jsstring \<Rightarrow> jsstring" where
  "resolveDotSegments u =
     (case splitAuthority u of
        None \<Rightarrow> u
      | Some (origin, path) \<Rightarrow>
          origin @ [47] @ js_join [47] (resolveDots [] (js_split 47 path)))"


section \<open>Documents\<close>

text \<open>An element with its name, attributes and children, or a text node.\<close>

datatype node =
  Element jsstring "(jsstring \<times> jsstring) list" "node list"
| TextNode jsstring

fun hasAttribute :: "node \<Rightarrow> jsstring \<Rightarrow> bool" where
  "hasAttribute (Element n as cs) a = (map_of as a \<noteq> None)"
| "hasAttribute (TextNode t) a = False"

fun getAttribute :: "node \<Rightarrow> jsstring \<Rightarrow> jsstring option" where
  "getAttribute (Element n as cs) a = map_of as a"
| "getAttribute (TextNode t) a = None"

text \<open>
  Assigning a property of an object, or an attribute of an element: the value is replaced
  in place, or the new entry is appended.
\<close>

fun setProp :: "'k \<Rightarrow> 'v \<Rightarrow> ('k \<times> 'v) list \<Rightarrow> ('k \<times> 'v) list" where
  "setProp a v [] = [(a, v)]"
| "setProp a v (p # ps) = (if fst p = a then (a, v) # ps else p # setProp a v ps)"

fun setAttribute :: "node \<Rightarrow> jsstring \<Rightarrow> jsstring \<Rightarrow> node" where
  "setAttribute (Element n as cs) a v = Element n (setProp a v as) cs"
| "setAttribute (TextNode t) a v = TextNode t"

fun nodeName :: "node \<Rightarrow> jsstring" where
  "nodeName (Element n as cs) = n"
| "nodeName (TextNode t) = lit ''#text''"

fun childNodes :: "node \<Rightarrow> node list" where
  "childNodes (Element n as cs) = cs"
| "childNodes (TextNode t) = []"

fun setChildNodes :: "node \<Rightarrow> node list \<Rightarrow> node" where
  "setChildNodes (Element n as cs) cs' = Element n as cs'"
| "setChildNodes (TextNode t) cs' = TextNode t"

fun textContent :: "node \<Rightarrow> jsstring" where
  "textContent (TextNode t) = t"
| "textContent (Element n as cs) = concat (map textContent cs)"

fun setTextContent :: "node \<Rightarrow> jsstring \<Rightarrow> node" where
  "setTextContent (Element n as cs) t = Element n as (if t = [] then [] else [TextNode t])"
| "setTextContent (TextNode t0) t = TextNode t"

record document =
  doctypeString :: jsstring
  contentType :: jsstring
  documentElement :: node

section \<open>The viewer's data and its environment\<close>

record blob =
  blobType :: jsstring
  blobData :: jsstring

text \<open>An entry of \<open>viewer.inZipFiles\<close>: \<open>{file: f, url: u}\<close>.\<close>

record zipEntry =
  entryFile :: blob
  entryUrl :: jsstring

text \<open>
  The viewer's mutable data: the three collections of \<open>viewer\<close>, the object URLs the
  browser has handed out (\<open>URL.createObjectURL\<close>), the number of identifiers
  \<open>scrapbook.getUuid\<close> has produced, the URL of the de-API script once it exists, and
  the arrays that hold recursion chains, by address.
\<close>

record vstate =
  inZipFiles :: "jsstring \<rightharpoonup> zipEntry"
  blobUrlToInZipPath :: "jsstring \<rightharpoonup> jsstring"
  rewrittenBlobUrl :: "jsstring set"
  objectStore :: "(jsstring \<times> blob) list"
  uuidCount :: nat
  deApiScriptUrl :: "jsstring option"
  arrays :: "nat \<Rightarrow> jsstring list"
  arrayCount :: nat

datatype cssPiece =
  CssText jsstring
| CssImportUrl jsstring
| CssFontFaceUrl jsstring
| CssBackgroundUrl jsstring

text \<open>
  What the code takes from the browser and from the parts of the scrapbook library that
  are not among the sources: \<open>viewerData.virtualBase\<close>; \<open>new URL(url, base)\<close>
  (\<open>None\<close> when it throws); \<open>String.prototype.toLowerCase\<close>; the name of the
  \<open>n\<close>-th object URL; the \<open>n\<close>-th result of \<open>scrapbook.getUuid\<close>;
  \<open>scrapbook.readFileAsDocument\<close> (\<open>None\<close> when no document can be loaded);
  \<open>outerHTML\<close>; \<open>scrapbook.parseHeaderRefresh\<close> (the time as it is printed, and the
  URL, empty when there is none); \<open>scrapbook.escapeHtml\<close>; \<open>scrapbook.rewriteSrcset\<close>;
  the pieces into which \<open>scrapbook.rewriteCssText\<close> cuts a stylesheet;
  \<open>scrapbook.xhr\<close> (the response blob, if any, or a rejection); \<open>viewer.hasCsp\<close>;
  the text of the de-API script; \<open>viewer.metaRefreshIdentifier\<close>; the URL of
  \<open>core/reset.css\<close>; \<open>elem.matches('[rel~="stylesheet"]')\<close>; the \<open>src\<close> property of
  a script element with a given \<open>src\<close> attribute; the \<open>type\<close> property of an input
  element.
\<close>

record env =
  virtualBase :: jsstring
  newURL :: "jsstring \<Rightarrow> jsstring option \<Rightarrow> jsurl option"
  toLowerCase :: "jsstring \<Rightarrow> jsstring"
  objectUrlName :: "nat \<Rightarrow> jsstring"
  getUuid :: "nat \<Rightarrow> jsstring"
  readFileAsDocument :: "blob \<Rightarrow> document option"
  outerHTML :: "node \<Rightarrow> jsstring"
  parseHeaderRefresh :: "jsstring \<Rightarrow> jsstring \<times> jsstring"
  escapeHtml :: "jsstring \<Rightarrow> bool \<Rightarrow> jsstring"
  rewriteSrcset :: "jsstring \<Rightarrow> (jsstring \<Rightarrow> jsstring) \<Rightarrow> jsstring"
  cssPieces :: "jsstring \<Rightarrow> cssPiece list"
  xhr :: "jsstring \<Rightarrow> jserror + blob option"
  hasCsp :: bool
  deApiScriptText :: jsstring
  metaRefreshIdentifier :: jsstring
  resetCssUrl :: jsstring
  matchesRelStylesheet :: "node \<Rightarrow> bool"
  srcProperty :: "jsstring \<Rightarrow> jsstring"
  typeProperty :: "node \<Rightarrow> jsstring"

section \<open>Results of asynchronous code\<close>

text \<open>
  A computation on the viewer's data ends with a value, ends with an exception (a
  rejected promise), or has not ended within the recursion depth it was given. A promise
  is run to its end where the code awaits it. The tasks that the walk of a document
  starts without awaiting them are run one after another: those of an element in the
  order in which the code starts them, once the children of the element have been
  visited.
\<close>

datatype 'a res = OutOfFuel | Raise jserror vstate | Ok 'a vstate

type_synonym 'a M = "vstate \<Rightarrow> 'a res"

definition returnM :: "'a \<Rightarrow> 'a M" where
  "returnM x = (\<lambda>st. Ok x st)"

definition throwM :: "jserror \<Rightarrow> 'a M" where
  "throwM e = (\<lambda>st. Raise e st)"

definition bindM :: "'a M \<Rightarrow> ('a \<Rightarrow> 'b M) \<Rightarrow> 'b M" where
  "bindM m f = (\<lambda>st. case m st of OutOfFuel \<Rightarrow> OutOfFuel | Raise e st' \<Rightarrow> Raise e st' | Ok x st' \<Rightarrow> f x st')"

text \<open>\<open>try { m } catch (ex) { h(ex) }\<close>, and \<open>promise.catch(h)\<close>.\<close>

definition catchM :: "'a M \<Rightarrow> (jserror \<Rightarrow> 'a M) \<Rightarrow> 'a M" where
  "catchM m h = (\<lambda>st. case m st of OutOfFuel \<Rightarrow> OutOfFuel | Raise e st' \<Rightarrow> h e st' | Ok x st' \<Rightarrow> Ok x st')"

definition liftE :: "jserror + 'a \<Rightarrow> 'a M" where
  "liftE r = (case r of Inl e \<Rightarrow> throwM e | Inr x \<Rightarrow> returnM x)"

definition getState :: "vstate M" where
  "getState = (\<lambda>st. Ok st st)"

text \<open>\<open>URL.createObjectURL(blob)\<close>.\<close>

definition createObjectURL :: "env \<Rightarrow> blob \<Rightarrow> jsstring M" where
  "createObjectURL E b =
     (\<lambda>st. let u = objectUrlName E (length (objectStore st))
           in Ok u (st\<lparr>objectStore := objectStore st @ [(u, b)]\<rparr>))"

subsection \<open>Arrays of recursion chains\<close>

text \<open>An array literal, \<open>JSON.parse(JSON.stringify(a))\<close>, \<open>a.push(v)\<close> and reading.\<close>

definition newArray :: "jsstring list \<Rightarrow> nat M" where
  "newArray xs =
     (\<lambda>st. Ok (arrayCount st)
              (st\<lparr>arrays := (arrays st)(arrayCount st := xs), arrayCount := Suc (arrayCount st)\<rparr>))"

definition jsonCopy :: "nat \<Rightarrow> nat M" where
  "jsonCopy a = (\<lambda>st. newArray (arrays st a) st)"

definition push :: "nat \<Rightarrow> jsstring \<Rightarrow> unit M" where
  "push a v = (\<lambda>st. Ok () (st\<lparr>arrays := (arrays st)(a := arrays st a @ [v])\<rparr>))"

definition arrayIncludes :: "vstate \<Rightarrow> nat \<Rightarrow> jsstring \<Rightarrow> bool" where
  "arrayIncludes st a v \<longleftrightarrow> v \<in> set (arrays st a)"


text \<open>\<open>a || b\<close> for a string \<open>a\<close> that may be missing (or \<open>null\<close>) or empty.\<close>

definition orElse :: "jsstring option \<Rightarrow> jsstring \<Rightarrow> jsstring" where
  "orElse a b = (case a of None \<Rightarrow> b | Some u \<Rightarrow> if u \<noteq> [] then u else b)"

section \<open>UrlResolver: \<open>viewer.parseUrl\<close>\<close>

record urlInfo =
  info_url :: jsstring
  info_virtualUrl :: "jsstring option"
  info_inZip :: bool
  info_inZipPath :: "jsstring option"
  info_mime :: "jsstring option"
  info_search :: "jsstring option"
  info_hash :: "jsstring option"

text \<open>\<open>{url, inZip: false}\<close>\<close>

definition notInZip :: "jsstring \<Rightarrow> urlInfo" where
  "notInZip u =
     \<lparr>info_url = u, info_virtualUrl = None, info_inZip = False, info_inZipPath = None,
      info_mime = None, info_search = None, info_hash = None\<rparr>"

text \<open>A missing or empty \<open>refUrl\<close> is the empty string: \<open>refUrl || undefined\<close>.\<close>

definition parseUrl :: "env \<Rightarrow> vstate \<Rightarrow> jsstring \<Rightarrow> jsstring \<Rightarrow> urlInfo" where
  "parseUrl E st url refUrl =
     (case newURL E url (if refUrl = [] then None else Some refUrl) of
        None \<Rightarrow> notInZip url
      | Some absoluteUrl \<Rightarrow>
          if startsWith (href absoluteUrl) (virtualBase E) then
            (let search = url_search absoluteUrl;
                 hash = url_hash absoluteUrl;
                 absoluteUrl = absoluteUrl\<lparr>urlQuery := None, urlFragment := None\<rparr>;
                 inZipPath = hrefToInZipPath (virtualBase E) (href absoluteUrl)
             in case inZipFiles st inZipPath of
                  Some f \<Rightarrow>
                    \<lparr>info_url = entryUrl f @ hash,
                     info_virtualUrl = Some (href absoluteUrl @ hash),
                     info_inZip = True,
                     info_inZipPath = Some inZipPath,
                     info_mime = Some (blobType (entryFile f)),
                     info_search = Some search,
                     info_hash = Some hash\<rparr>
                | None \<Rightarrow> notInZip url)
          else notInZip (href absoluteUrl))"

section \<open>FetchOrchestrator: \<open>viewer.fetchFile\<close> and \<open>viewer.fetchPage\<close>\<close>

text \<open>The argument of a \<open>rewriteFunc\<close> (\<open>charset\<close> is always \<open>null\<close>).\<close>

record rewriteParams =
  rp_data :: blob
  rp_url :: jsstring
  rp_recurseChain :: nat

type_synonym rewriteFunc = "rewriteParams \<Rightarrow> blob M"

definition recordRewritten :: "jsstring \<Rightarrow> jsstring \<Rightarrow> unit M" where
  "recordRewritten u inZipPath =
     (\<lambda>st. Ok () (st\<lparr>blobUrlToInZipPath := (blobUrlToInZipPath st)(u \<mapsto> inZipPath),
                       rewrittenBlobUrl := insert u (rewrittenBlobUrl st)\<rparr>))"

definition fetchFile ::
  "env \<Rightarrow> jsstring option \<Rightarrow> rewriteFunc option \<Rightarrow> nat \<Rightarrow> jsstring option M" where
  "fetchFile E inZipPath rewriteFunc recurseChain =
     bindM getState (\<lambda>st.
       case inZipPath of
         None \<Rightarrow> returnM None
       | Some p \<Rightarrow>
          (case inZipFiles st p of
             Some f \<Rightarrow>
               (case rewriteFunc of
                  Some rf \<Rightarrow>
                    bindM (liftE (inZipPathToUrl (virtualBase E) inZipPath)) (\<lambda>url.
                    bindM (rf \<lparr>rp_data = entryFile f, rp_url = url,
                               rp_recurseChain = recurseChain\<rparr>) (\<lambda>rewrittenFile.
                    bindM (createObjectURL E rewrittenFile) (\<lambda>u.
                    bindM (recordRewritten u p) (\<lambda>_.
                    returnM (Some u)))))
                | None \<Rightarrow> returnM (Some (entryUrl f)))
           | None \<Rightarrow> returnM None))"

text \<open>
  The \<open>rewriteFunc\<close> that \<open>fetchPage\<close> hands to \<open>fetchFile\<close>. \<open>parseDocument\<close> is
  \<open>viewer.parseDocument\<close>, a parameter here because the two call each other.
\<close>

definition pageRewriteFunc ::
  "env \<Rightarrow> (document \<Rightarrow> jsstring option \<Rightarrow> nat \<Rightarrow> blob M) \<Rightarrow> jsstring option \<Rightarrow> rewriteFunc" where
  "pageRewriteFunc E parseDocument inZipPath params =
     (let data = rp_data params
      in if blobType data \<in> {lit ''text/html'', lit ''application/xhtml+xml'', lit ''image/svg+xml''}
         then catchM
                (case readFileAsDocument E data of
                   None \<Rightarrow> throwM DocumentError
                 | Some doc \<Rightarrow> parseDocument doc inZipPath (rp_recurseChain params))
                (\<lambda>ex. returnM data)
         else returnM data)"

text \<open>A missing or empty \<open>url\<close> is the empty string.\<close>

definition fetchPage ::
  "env \<Rightarrow> (document \<Rightarrow> jsstring option \<Rightarrow> nat \<Rightarrow> blob M) \<Rightarrow>
   jsstring option \<Rightarrow> jsstring \<Rightarrow> nat \<Rightarrow> jsstring option M" where
  "fetchPage E parseDocument inZipPath url recurseChain =
     (let searchAndHash =
            (if url \<noteq> [] then (case splitUrl url of (base, search, hash) \<Rightarrow> hash) else [])
      in bindM (fetchFile E inZipPath (Some (pageRewriteFunc E parseDocument inZipPath)) recurseChain)
           (\<lambda>fetchedUrl.
              returnM (case fetchedUrl of
                         None \<Rightarrow> None
                       | Some u \<Rightarrow> if u \<noteq> [] then Some (u @ searchAndHash) else Some u)))"

section \<open>StylesheetRewriter: \<open>ComplexUrlFetcher\<close> and \<open>viewer.processCssText\<close>\<close>

record urlHashEntry =
  uh_url :: jsstring
  uh_newUrl :: "jsstring option"
  uh_rewriteFunc :: "rewriteFunc option"

record fetcher =
  f_urlHash :: "(jsstring \<times> urlHashEntry) list"
  f_urlRewrittenCount :: nat
  f_recurseChain :: nat

text \<open>The constructor; \<open>recurseChain || []\<close> makes an array when none is given.\<close>

definition newFetcher :: "jsstring \<Rightarrow> nat option \<Rightarrow> fetcher M" where
  "newFetcher refUrl recurseChain =
     bindM (case recurseChain of None \<Rightarrow> newArray [] | Some a \<Rightarrow> returnM a) (\<lambda>a.
     bindM (jsonCopy a) (\<lambda>chain.
     bindM (if refUrl \<noteq> [] then push chain (fst (splitUrlByAnchor refUrl)) else returnM ()) (\<lambda>_.
     returnM \<lparr>f_urlHash = [], f_urlRewrittenCount = 0, f_recurseChain = chain\<rparr>)))"

definition getUrlHash ::
  "env \<Rightarrow> fetcher \<Rightarrow> jsstring \<Rightarrow> rewriteFunc option \<Rightarrow> (jsstring \<times> fetcher) M" where
  "getUrlHash E F url rewriteFunc =
     (\<lambda>st. let key = getUuid E (uuidCount st)
           in Ok (lit ''urn:scrapbook:url:'' @ key,
                  F\<lparr>f_urlHash :=
                      setProp key \<lparr>uh_url = url, uh_newUrl = None, uh_rewriteFunc = rewriteFunc\<rparr>
                        (f_urlHash F)\<rparr>)
                 (st\<lparr>uuidCount := Suc (uuidCount st)\<rparr>))"

text \<open>
  One of the tasks of \<open>startFetches\<close>, for one key of \<open>urlHash\<close>: the value the task
  returns, and the fetcher after it.
\<close>

definition startFetch :: "env \<Rightarrow> fetcher \<Rightarrow> jsstring \<Rightarrow> (jsstring \<times> fetcher) M" where
  "startFetch E F key =
     (case map_of (f_urlHash F) key of
        None \<Rightarrow> throwM TypeError
      | Some entry \<Rightarrow>
          bindM getState (\<lambda>st.
            let chain = arrays st (f_recurseChain F);
                sourceUrl = (if chain = [] then [] else last chain);
                info = parseUrl E st (uh_url entry) sourceUrl
            in bindM (if info_inZip info then
                        bindM (liftE (inZipPathToUrl (virtualBase E) (info_inZipPath info)))
                          (\<lambda>targetUrl. returnM (fst (splitUrlByAnchor targetUrl) \<in> set chain))
                      else returnM False) (\<lambda>circular.
               if circular then returnM (lit ''about:blank'', F)
               else
                 bindM (liftE (inZipPathToUrl (virtualBase E) (info_inZipPath info))) (\<lambda>url.
                 bindM (fetchFile E (info_inZipPath info) (uh_rewriteFunc entry)
                          (f_recurseChain F)) (\<lambda>fetched.
                   let response = orElse fetched (info_url info)
                   in returnM
                        (response,
                         F\<lparr>f_urlHash :=
                             setProp key (entry\<lparr>uh_newUrl := Some response\<rparr>) (f_urlHash F)\<rparr>))))))"

fun startFetchTasks :: "env \<Rightarrow> jsstring list \<Rightarrow> fetcher \<Rightarrow> (jsstring list \<times> fetcher) M" where
  "startFetchTasks E [] F = returnM ([], F)"
| "startFetchTasks E (key # keys) F =
     bindM (startFetch E F key) (\<lambda>(r, F').
     bindM (startFetchTasks E keys F') (\<lambda>(rs, F'').
     returnM (r # rs, F'')))"

text \<open>\<open>Object.keys(this.urlHash).map(...)\<close>, then \<open>Promise.all\<close>.\<close>

definition startFetches :: "env \<Rightarrow> fetcher \<Rightarrow> (jsstring list \<times> fetcher) M" where
  "startFetches E F = startFetchTasks E (map fst (f_urlHash F)) F"

text \<open>
  The pattern of \<open>finalRewrite\<close>:
  \<open>[0-9a-f]{8}-(?:[0-9a-f]{4}-){3}[0-9a-f]{12}\<close> after \<open>urn:scrapbook:url:\<close>.
\<close>

definition isHexLower :: "nat \<Rightarrow> bool" where
  "isHexLower c \<longleftrightarrow> (48 \<le> c \<and> c \<le> 57) \<or> (97 \<le> c \<and> c \<le> 102)"

definition uuidShape :: "jsstring \<Rightarrow> bool" where
  "uuidShape k \<longleftrightarrow>
     length k = 36 \<and>
     list_all (\<lambda>i. if i \<in> {8, 13, 18, 23} then k ! i = 45 else isHexLower (k ! i)) [0..<36]"

definition markerAt :: "jsstring \<Rightarrow> bool" where
  "markerAt text \<longleftrightarrow>
     startsWith text (lit ''urn:scrapbook:url:'') \<and> uuidShape (take 36 (drop 18 text))"

text \<open>
  \<open>text.replace(/.../g, f)\<close>: the matches are taken from left to right and do not
  overlap; what \<open>f\<close> returns is put in as a string, so \<open>null\<close> is put in as the four
  characters \<open>null\<close>.
\<close>

fun finalRewrite :: "fetcher \<Rightarrow> jsstring \<Rightarrow> jsstring" where
  "finalRewrite F [] = []"
| "finalRewrite F (c # cs) =
     (if markerAt (c # cs) then
        (let key = take 36 (drop 18 (c # cs))
         in (case map_of (f_urlHash F) key of
               Some entry \<Rightarrow> (case uh_newUrl entry of None \<Rightarrow> lit ''null'' | Some u \<Rightarrow> u)
             | None \<Rightarrow> take 54 (c # cs))
            @ finalRewrite F (drop 53 cs))
      else c # finalRewrite F cs)"

text \<open>
  Modelled from the spec: \<open>scrapbook.rewriteCssText\<close> is not among the sources. The spec
  has the scan pass replace the URL of each \<open>@import\<close>, \<open>@font-face\<close> \<open>url()\<close> and other
  \<open>url()\<close> by what the callback of its kind returns, and keep all other text as it is.
\<close>

fun rewriteCssText ::
  "cssPiece list \<Rightarrow> (jsstring \<Rightarrow> fetcher \<Rightarrow> (jsstring \<times> fetcher) M) \<Rightarrow>
   (jsstring \<Rightarrow> fetcher \<Rightarrow> (jsstring \<times> fetcher) M) \<Rightarrow>
   (jsstring \<Rightarrow> fetcher \<Rightarrow> (jsstring \<times> fetcher) M) \<Rightarrow> fetcher \<Rightarrow> (jsstring \<times> fetcher) M" where
  "rewriteCssText [] rewriteImportUrl rewriteFontFaceUrl rewriteBackgroundUrl F = returnM ([], F)"
| "rewriteCssText (p # ps) rewriteImportUrl rewriteFontFaceUrl rewriteBackgroundUrl F =
     bindM (case p of
              CssText t \<Rightarrow> returnM (t, F)
            | CssImportUrl u \<Rightarrow> rewriteImportUrl u F
            | CssFontFaceUrl u \<Rightarrow> rewriteFontFaceUrl u F
            | CssBackgroundUrl u \<Rightarrow> rewriteBackgroundUrl u F) (\<lambda>(t, F').
     bindM (rewriteCssText ps rewriteImportUrl rewriteFontFaceUrl rewriteBackgroundUrl F')
       (\<lambda>(r, F''). returnM (t @ r, F'')))"

text \<open>
  \<open>viewer.processCssText\<close>; \<open>processCssFile\<close> is \<open>viewer.processCssFile\<close>, a parameter
  here because the two call each other.
\<close>

definition processCssText ::
  "env \<Rightarrow> rewriteFunc \<Rightarrow> jsstring \<Rightarrow> jsstring \<Rightarrow> nat \<Rightarrow> jsstring M" where
  "processCssText E processCssFile cssText refUrl recurseChain =
     bindM (newFetcher refUrl (Some recurseChain)) (\<lambda>fetcher.
     bindM (rewriteCssText (cssPieces E cssText)
              (\<lambda>url F. getUrlHash E F url (Some processCssFile))
              (\<lambda>url F. getUrlHash E F url None)
              (\<lambda>url F. getUrlHash E F url None) fetcher) (\<lambda>(rewritten, fetcher).
     bindM (startFetches E fetcher) (\<lambda>(results, fetcher).
     returnM (finalRewrite fetcher rewritten))))"

text \<open>
  Modelled from the spec: \<open>scrapbook.rewriteCssFile\<close> is not among the sources. It hands
  the text of the stylesheet to the rewriter and makes a blob of the same type from
  what the rewriter returns.
\<close>

definition rewriteCssFile :: "blob \<Rightarrow> (jsstring \<Rightarrow> jsstring M) \<Rightarrow> blob M" where
  "rewriteCssFile data rewriter =
     bindM (rewriter (blobData data)) (\<lambda>text. returnM (data\<lparr>blobData := text\<rparr>))"

definition processCssFile :: "(jsstring \<Rightarrow> jsstring \<Rightarrow> nat \<Rightarrow> jsstring M) \<Rightarrow> rewriteFunc" where
  "processCssFile processCssText' params =
     rewriteCssFile (rp_data params)
       (\<lambda>text. processCssText' text (rp_url params) (rp_recurseChain params))"


section \<open>DocumentRewriter: \<open>viewer.parseDocument\<close>\<close>

text \<open>
  A task of \<open>parseDocument\<close>: a promise whose \<open>then\<close> callback changes the element
  the task was started for. The task yields that change.
\<close>

type_synonym task = "(node \<Rightarrow> node) M"

type_synonym fetchPageFun = "jsstring option \<Rightarrow> jsstring \<Rightarrow> nat \<Rightarrow> jsstring option M"

definition rewriteUrl :: "env \<Rightarrow> vstate \<Rightarrow> jsstring \<Rightarrow> jsstring \<Rightarrow> jsstring" where
  "rewriteUrl E st url refUrl = info_url (parseUrl E st url refUrl)"

text \<open>\<open>if (elem.hasAttribute(a)) { elem.setAttribute(a, rewriteUrl(elem.getAttribute(a), refUrl)); }\<close>\<close>

definition rewriteAttr :: "env \<Rightarrow> vstate \<Rightarrow> jsstring \<Rightarrow> jsstring \<Rightarrow> node \<Rightarrow> node" where
  "rewriteAttr E st refUrl a elem =
     (case getAttribute elem a of
        None \<Rightarrow> elem
      | Some v \<Rightarrow> setAttribute elem a (rewriteUrl E st v refUrl))"

definition rewriteSrcsetAttr :: "env \<Rightarrow> vstate \<Rightarrow> jsstring \<Rightarrow> node \<Rightarrow> node" where
  "rewriteSrcsetAttr E st refUrl elem =
     (case getAttribute elem (lit ''srcset'') of
        None \<Rightarrow> elem
      | Some v \<Rightarrow>
          setAttribute elem (lit ''srcset'')
            (rewriteSrcset E v (\<lambda>url. rewriteUrl E st url refUrl)))"

text \<open>
  The block the code has for \<open>href\<close> and \<open>xlink:href\<close> under \<open>svg\<close>, for \<open>href\<close> under
  \<open>math\<close>, and for \<open>href\<close> of \<open>a\<close> and \<open>area\<close>.
\<close>

definition rewriteLinkAttr ::
  "env \<Rightarrow> vstate \<Rightarrow> jsstring option \<Rightarrow> jsstring \<Rightarrow> jsstring \<Rightarrow> node \<Rightarrow> node" where
  "rewriteLinkAttr E st inZipPath refUrl a elem =
     (case getAttribute elem a of
        None \<Rightarrow> elem
      | Some v \<Rightarrow>
          (let info = parseUrl E st v refUrl
           in if info_inZip info then
                (if info_inZipPath info \<noteq> inZipPath then setAttribute elem a (info_url info)
                 else setAttribute elem a (orElse (info_hash info) (lit ''#'')))
              else setAttribute elem a (info_url info)))"

text \<open>\<open>JSON.parse(JSON.stringify(recurseChain))\<close>, then \<open>push(refUrl)\<close>.\<close>

definition childChain :: "nat \<Rightarrow> jsstring \<Rightarrow> nat M" where
  "childChain recurseChain refUrl =
     bindM (jsonCopy recurseChain) (\<lambda>chain.
     bindM (push chain refUrl) (\<lambda>_. returnM chain))"

text \<open>The page that the meta refresh of an external target is pointed at.\<close>

definition redirectNotice :: "env \<Rightarrow> jsstring \<Rightarrow> jsstring" where
  \<open>redirectNotice E u =
     lit ''<!DOCTYPE html>'' @ [10] @
     lit ''<html '' @ metaRefreshIdentifier E @ lit ''="1">'' @ [10] @
     lit ''<head>'' @ [10] @
     lit ''<meta charset="UTF-8">'' @ [10] @
     lit ''<meta name="viewport" content="width=device-width,initial-scale=1">'' @ [10] @
     lit ''</head>'' @ [10] @
     lit ''<body>'' @ [10] @
     lit ''Redirecting to: <a href="'' @ escapeHtml E u False @ lit ''">'' @
       escapeHtml E u True @ lit ''</a>'' @ [10] @
     lit ''</body>'' @ [10] @
     lit ''</html>'' @ [10]\<close>

definition ogProperties :: "jsstring set" where
  "ogProperties =
     {lit ''og:image'', lit ''og:image:url'', lit ''og:image:secure_url'',
      lit ''og:audio'', lit ''og:audio:url'', lit ''og:audio:secure_url'',
      lit ''og:video'', lit ''og:video:url'', lit ''og:video:secure_url'',
      lit ''og:url''}"

definition rewriteMetaRefresh ::
  "env \<Rightarrow> fetchPageFun \<Rightarrow> jsstring \<Rightarrow> nat \<Rightarrow> node \<Rightarrow> jsstring \<Rightarrow> (node \<times> task list) M" where
  "rewriteMetaRefresh E fetchPage' refUrl recurseChain elem content =
     (case parseHeaderRefresh E content of
        (time, metaUrl) \<Rightarrow>
          if metaUrl \<noteq> [] then
            bindM getState (\<lambda>st.
              let info = parseUrl E st metaUrl refUrl;
                  sourcePage = fst (splitUrlByAnchor refUrl)
              in case splitUrlByAnchor (orElse (info_virtualUrl info) (info_url info)) of
                   (targetPage, targetPageHash) \<Rightarrow>
                     if targetPage \<noteq> sourcePage then
                       (if arrayIncludes st recurseChain targetPage then
                          returnM (setAttribute elem (lit ''content'')
                                     (time @ lit '';url=about:blank''), [])
                        else if info_inZip info then
                          bindM (childChain recurseChain refUrl) (\<lambda>metaRecurseChain.
                            returnM
                              (elem,
                               [bindM (fetchPage' (info_inZipPath info) (info_url info)
                                         metaRecurseChain) (\<lambda>fetchedUrl.
                                  let url = orElse fetchedUrl (info_url info)
                                  in returnM (\<lambda>e. setAttribute e (lit ''content'')
                                                 (time @ lit '';url='' @ url)))]))
                        else
                          bindM (createObjectURL E
                                   \<lparr>blobType = lit ''text/html'',
                                    blobData = redirectNotice E (info_url info)\<rparr>) (\<lambda>u.
                            let url = u @ targetPageHash
                            in returnM (setAttribute elem (lit ''content'')
                                          (time @ lit '';url='' @ url), [])))
                     else
                       returnM (setAttribute elem (lit ''content'')
                                  (time @ (if targetPageHash \<noteq> [] then lit '';url='' @ targetPageHash
                                           else [])), []))
          else returnM (elem, []))"

definition rewriteMeta ::
  "env \<Rightarrow> fetchPageFun \<Rightarrow> jsstring \<Rightarrow> nat \<Rightarrow> node \<Rightarrow> (node \<times> task list) M" where
  "rewriteMeta E fetchPage' refUrl recurseChain elem =
     (let property =
            (case (getAttribute elem (lit ''property''), getAttribute elem (lit ''content'')) of
               (Some p, Some c) \<Rightarrow>
                 if toLowerCase E p \<in> ogProperties then
                   bindM getState (\<lambda>st.
                     returnM (setAttribute elem (lit ''content'') (rewriteUrl E st c refUrl), []))
                 else returnM (elem, [])
             | _ \<Rightarrow> returnM (elem, []))
      in case (getAttribute elem (lit ''http-equiv''), getAttribute elem (lit ''content'')) of
           (Some h, Some c) \<Rightarrow>
             if toLowerCase E h = lit ''refresh''
             then rewriteMetaRefresh E fetchPage' refUrl recurseChain elem c
             else property
         | _ \<Rightarrow> property)"

definition rewriteLinkElem ::
  "env \<Rightarrow> rewriteFunc \<Rightarrow> jsstring \<Rightarrow> node \<Rightarrow> (node \<times> task list) M" where
  "rewriteLinkElem E processCssFile' refUrl elem =
     (case getAttribute elem (lit ''href'') of
        None \<Rightarrow> returnM (elem, [])
      | Some v \<Rightarrow>
          bindM getState (\<lambda>st.
            if matchesRelStylesheet E elem then
              (let info = parseUrl E st v refUrl
               in bindM (newArray [refUrl]) (\<lambda>chain.
                    returnM
                      (elem,
                       [bindM (fetchFile E (info_inZipPath info) (Some processCssFile') chain)
                          (\<lambda>fetchedUrl.
                             let url = orElse fetchedUrl (info_url info)
                             in returnM (\<lambda>e. setAttribute e (lit ''href'') url))])))
            else returnM (setAttribute elem (lit ''href'') (rewriteUrl E st v refUrl), [])))"

text \<open>
  The task that fetches an external resource and puts an object URL in its place;
  \<open>.catch((ex) => { console.error(ex); })\<close> ends it.
\<close>

definition xhrTask :: "env \<Rightarrow> jsstring \<Rightarrow> jsstring \<Rightarrow> task" where
  "xhrTask E url a =
     catchM
       (bindM (liftE (xhr E url)) (\<lambda>response.
          case response of
            None \<Rightarrow> returnM (\<lambda>e. e)
          | Some b \<Rightarrow> bindM (createObjectURL E b) (\<lambda>u. returnM (\<lambda>e. setAttribute e a u))))
       (\<lambda>ex. returnM (\<lambda>e. e))"

definition rewriteScript :: "env \<Rightarrow> jsstring \<Rightarrow> node \<Rightarrow> (node \<times> task list) M" where
  "rewriteScript E refUrl elem =
     (case getAttribute elem (lit ''src'') of
        Some v \<Rightarrow>
          bindM getState (\<lambda>st.
            let url = rewriteUrl E st v refUrl;
                elem1 = setAttribute elem (lit ''src'') url;
                src = srcProperty E url;
                tasks = (if \<not> startsWith src (lit ''blob:'') \<and> hasCsp E
                         then [xhrTask E src (lit ''src'')] else []);
                elem2 = (if startsWith src (lit ''blob:'') \<and> \<not> hasCsp E
                         then setAttribute elem1 (lit ''src'') (lit ''blob:'') else elem1)
            in returnM (elem2, tasks))
      | None \<Rightarrow>
          if hasCsp E then
            (let text = textContent elem
             in if text \<noteq> [] then
                  bindM (createObjectURL E
                           \<lparr>blobType = lit ''application/javascript'', blobData = text\<rparr>) (\<lambda>u.
                    returnM (setTextContent (setAttribute elem (lit ''src'') u) [], []))
                else returnM (elem, []))
          else returnM (elem, []))"

text \<open>The block the code has for \<open>embed[src]\<close>, \<open>object[data]\<close>, \<open>applet[code]\<close> and
  \<open>applet[archive]\<close>.\<close>

definition localizeAttr ::
  "env \<Rightarrow> vstate \<Rightarrow> jsstring \<Rightarrow> jsstring \<Rightarrow> node \<times> task list \<Rightarrow> node \<times> task list" where
  "localizeAttr E st refUrl a r =
     (case r of
        (elem, tasks) \<Rightarrow>
          (case getAttribute elem a of
             None \<Rightarrow> (elem, tasks)
           | Some v \<Rightarrow>
               (let url = rewriteUrl E st v refUrl
                in (setAttribute elem a url,
                    tasks @ (if \<not> startsWith url (lit ''blob:'') \<and> hasCsp E
                             then [xhrTask E url a] else [])))))"

definition rewriteFrame ::
  "env \<Rightarrow> fetchPageFun \<Rightarrow> jsstring \<Rightarrow> nat \<Rightarrow> node \<Rightarrow> (node \<times> task list) M" where
  "rewriteFrame E fetchPage' refUrl recurseChain elem =
     (case getAttribute elem (lit ''src'') of
        None \<Rightarrow> returnM (elem, [])
      | Some v \<Rightarrow>
          bindM (childChain recurseChain refUrl) (\<lambda>frameRecurseChain.
          bindM getState (\<lambda>st.
            let info = parseUrl E st v refUrl
            in bindM (if info_inZip info then
                        bindM (liftE (inZipPathToUrl (virtualBase E) (info_inZipPath info)))
                          (\<lambda>targetUrl. returnM (arrayIncludes st frameRecurseChain targetUrl))
                      else returnM False) (\<lambda>circular.
                 if circular then
                   returnM (setAttribute elem (lit ''src'') (lit ''about:blank''), [])
                 else
                   returnM
                     (elem,
                      [bindM (fetchPage' (info_inZipPath info) (info_url info) frameRecurseChain)
                         (\<lambda>fetchedUrl.
                            let url = orElse fetchedUrl (info_url info)
                            in returnM (\<lambda>e. setAttribute e (lit ''src'') url))])))))"

text \<open>The \<open>switch\<close> on the lower-case node name, outside \<open>svg\<close> and \<open>math\<close>.\<close>

definition rewriteByName ::
  "env \<Rightarrow> fetchPageFun \<Rightarrow> rewriteFunc \<Rightarrow> jsstring option \<Rightarrow> jsstring \<Rightarrow> nat \<Rightarrow> node \<Rightarrow>
   (node \<times> task list) M" where
  "rewriteByName E fetchPage' processCssFile' inZipPath refUrl recurseChain elem =
     (let name = toLowerCase E (nodeName elem)
      in if name = lit ''meta'' then rewriteMeta E fetchPage' refUrl recurseChain elem
         else if name = lit ''link'' then rewriteLinkElem E processCssFile' refUrl elem
         else if name = lit ''style'' then
           returnM
             (elem,
              [bindM (processCssText E processCssFile' (textContent elem) refUrl recurseChain)
                 (\<lambda>response. returnM (\<lambda>e. setTextContent e response))])
         else if name = lit ''script'' then rewriteScript E refUrl elem
         else if name \<in> {lit ''body'', lit ''table'', lit ''tr'', lit ''th'', lit ''td''} then
           bindM getState (\<lambda>st. returnM (rewriteAttr E st refUrl (lit ''background'') elem, []))
         else if name \<in> {lit ''frame'', lit ''iframe''} then
           rewriteFrame E fetchPage' refUrl recurseChain elem
         else if name \<in> {lit ''a'', lit ''area''} then
           bindM getState (\<lambda>st.
             returnM (rewriteLinkAttr E st inZipPath refUrl (lit ''href'') elem, []))
         else if name = lit ''img'' then
           bindM getState (\<lambda>st.
             returnM (rewriteSrcsetAttr E st refUrl (rewriteAttr E st refUrl (lit ''src'') elem), []))
         else if name = lit ''audio'' then
           bindM getState (\<lambda>st. returnM (rewriteAttr E st refUrl (lit ''src'') elem, []))
         else if name = lit ''video'' then
           bindM getState (\<lambda>st.
             returnM (rewriteAttr E st refUrl (lit ''poster'')
                        (rewriteAttr E st refUrl (lit ''src'') elem), []))
         else if name = lit ''source'' then
           bindM getState (\<lambda>st.
             returnM (rewriteSrcsetAttr E st refUrl (rewriteAttr E st refUrl (lit ''src'') elem), []))
         else if name = lit ''track'' then
           bindM getState (\<lambda>st. returnM (rewriteAttr E st refUrl (lit ''src'') elem, []))
         else if name = lit ''embed'' then
           bindM getState (\<lambda>st. returnM (localizeAttr E st refUrl (lit ''src'') (elem, [])))
         else if name = lit ''object'' then
           bindM getState (\<lambda>st. returnM (localizeAttr E st refUrl (lit ''data'') (elem, [])))
         else if name = lit ''applet'' then
           bindM getState (\<lambda>st.
             returnM (localizeAttr E st refUrl (lit ''archive'')
                        (localizeAttr E st refUrl (lit ''code'') (elem, []))))
         else if name = lit ''form'' then
           bindM getState (\<lambda>st. returnM (rewriteAttr E st refUrl (lit ''action'') elem, []))
         else if name = lit ''input'' then
           (if toLowerCase E (typeProperty E elem) = lit ''image'' then
              bindM getState (\<lambda>st. returnM (rewriteAttr E st refUrl (lit ''src'') elem, []))
            else returnM (elem, []))
         else returnM (elem, []))"

text \<open>
  \<open>rewriteNode\<close>: what it has done to the element when it returns, and the tasks it has
  started for the element.
\<close>

text \<open>The task for the \<open>style\<close> attribute of an element, if it has one.\<close>

definition styleAttrTasks :: "env \<Rightarrow> rewriteFunc \<Rightarrow> jsstring \<Rightarrow> nat \<Rightarrow> node \<Rightarrow> task list" where
  "styleAttrTasks E processCssFile' refUrl recurseChain elem =
     (case getAttribute elem (lit ''style'') of
        None \<Rightarrow> []
      | Some v \<Rightarrow>
          [bindM (processCssText E processCssFile' v refUrl recurseChain)
             (\<lambda>response. returnM (\<lambda>e. setAttribute e (lit ''style'') response))])"

definition rewriteNode ::
  "env \<Rightarrow> fetchPageFun \<Rightarrow> rewriteFunc \<Rightarrow> jsstring option \<Rightarrow> jsstring \<Rightarrow> nat \<Rightarrow> node \<Rightarrow> jsstring \<Rightarrow>
   (node \<times> task list) M" where
  "rewriteNode E fetchPage' processCssFile' inZipPath refUrl recurseChain elem rootName =
     (if rootName = lit ''svg'' then
        bindM getState (\<lambda>st.
          returnM (rewriteLinkAttr E st inZipPath refUrl (lit ''xlink:href'')
                     (rewriteLinkAttr E st inZipPath refUrl (lit ''href'') elem), []))
      else if rootName = lit ''math'' then
        bindM getState (\<lambda>st.
          returnM (rewriteLinkAttr E st inZipPath refUrl (lit ''href'') elem, []))
      else
        bindM (rewriteByName E fetchPage' processCssFile' inZipPath refUrl recurseChain elem)
          (\<lambda>(elem1, tasks).
             returnM (elem1, tasks @ styleAttrTasks E processCssFile' refUrl recurseChain elem1)))"

text \<open>\<open>await Promise.all(tasks)\<close> for the tasks of one element.\<close>

fun runTasks :: "task list \<Rightarrow> node \<Rightarrow> node M" where
  "runTasks [] elem = returnM elem"
| "runTasks (t # ts) elem = bindM t (\<lambda>change. runTasks ts (change elem))"

text \<open>
  \<open>rewriteRecursively\<close> with \<open>rewriteNode\<close> as its callback, which never returns a
  falsy value. The children that are visited are those of the element as the callback
  leaves it: the callback keeps them or replaces them by text. The changes of the
  element's tasks are made after its children have been visited.
\<close>

fun rewriteRecursively ::
  "env \<Rightarrow> (node \<Rightarrow> jsstring \<Rightarrow> (node \<times> task list) M) \<Rightarrow> node \<Rightarrow> jsstring \<Rightarrow> node M"
and rewriteChildren ::
  "env \<Rightarrow> (node \<Rightarrow> jsstring \<Rightarrow> (node \<times> task list) M) \<Rightarrow> node list \<Rightarrow> jsstring \<Rightarrow> node list M"
where
  "rewriteRecursively E callback (TextNode t) rootName = returnM (TextNode t)"
| "rewriteRecursively E callback (Element n as cs) rootName =
     (let nodeName' = toLowerCase E n;
          rootName' = (if nodeName' \<in> {lit ''svg'', lit ''math''} then nodeName' else rootName)
      in bindM (callback (Element n as cs) rootName') (\<lambda>(result, tasks).
         bindM (if childNodes result = cs then rewriteChildren E callback cs rootName'
                else returnM (childNodes result)) (\<lambda>children.
         runTasks tasks (setChildNodes result children))))"
| "rewriteChildren E callback [] rootName = returnM []"
| "rewriteChildren E callback (c # cs) rootName =
     bindM (rewriteRecursively E callback c rootName) (\<lambda>c'.
     bindM (rewriteChildren E callback cs rootName) (\<lambda>cs'.
     returnM (c' # cs')))"

text \<open>
  \<open>head.insertBefore(elem, head.firstChild)\<close> for \<open>head = doc.querySelector("head")\<close>,
  the first \<open>head\<close> element in document order; \<open>None\<close> when there is none.
\<close>

fun insertInHead :: "env \<Rightarrow> node \<Rightarrow> node \<Rightarrow> node option"
and insertInHeadOfFirst :: "env \<Rightarrow> node \<Rightarrow> node list \<Rightarrow> node list option"
where
  "insertInHead E new (TextNode t) = None"
| "insertInHead E new (Element n as cs) =
     (if toLowerCase E n = lit ''head'' then Some (Element n as (new # cs))
      else (case insertInHeadOfFirst E new cs of
              None \<Rightarrow> None
            | Some cs' \<Rightarrow> Some (Element n as cs')))"
| "insertInHeadOfFirst E new [] = None"
| "insertInHeadOfFirst E new (c # cs) =
     (case insertInHead E new c of
        Some c' \<Rightarrow> Some (c' # cs)
      | None \<Rightarrow> (case insertInHeadOfFirst E new cs of
                   None \<Rightarrow> None
                 | Some cs' \<Rightarrow> Some (c # cs')))"

text \<open>A missing \<open>head\<close> makes \<open>head.insertBefore\<close> a \<open>TypeError\<close>.\<close>

definition insertBeforeHeadFirstChild :: "env \<Rightarrow> node \<Rightarrow> node \<Rightarrow> node M" where
  "insertBeforeHeadFirstChild E new root =
     (case insertInHead E new root of None \<Rightarrow> throwM TypeError | Some root' \<Rightarrow> returnM root')"

definition insertDeApiScript :: "env \<Rightarrow> node \<Rightarrow> node M" where
  "insertDeApiScript E root =
     bindM getState (\<lambda>st.
     bindM (case deApiScriptUrl st of
              Some u \<Rightarrow> returnM u
            | None \<Rightarrow>
                bindM (createObjectURL E
                         \<lparr>blobType = lit ''application/javascript'',
                          blobData = deApiScriptText E\<rparr>) (\<lambda>u.
                bindM (\<lambda>st. Ok () (st\<lparr>deApiScriptUrl := Some u\<rparr>)) (\<lambda>_. returnM u))) (\<lambda>u.
     insertBeforeHeadFirstChild E (Element (lit ''script'') [(lit ''src'', u)] []) root))"

text \<open>
  The end of \<open>parseDocument\<close>, after the walk: the insertions into \<open>head\<close> for HTML and
  XHTML, and the blob of the document.
\<close>

definition finishDocument :: "env \<Rightarrow> document \<Rightarrow> node \<Rightarrow> blob M" where
  "finishDocument E doc root1 =
     bindM (if contentType doc \<in> {lit ''text/html'', lit ''application/xhtml+xml''} then
              bindM (if hasCsp E then insertDeApiScript E root1 else returnM root1) (\<lambda>root2.
                insertBeforeHeadFirstChild E
                  (Element (lit ''link'')
                     [(lit ''rel'', lit ''stylesheet''), (lit ''href'', resetCssUrl E)] [])
                  root2)
            else returnM root1) (\<lambda>root3.
     returnM \<lparr>blobType = contentType doc,
              blobData = doctypeString doc @ outerHTML E root3\<rparr>)"

definition parseDocument ::
  "env \<Rightarrow> fetchPageFun \<Rightarrow> rewriteFunc \<Rightarrow> document \<Rightarrow> jsstring option \<Rightarrow> nat \<Rightarrow> blob M" where
  "parseDocument E fetchPage' processCssFile' doc inZipPath recurseChain =
     bindM (liftE (inZipPathToUrl (virtualBase E) inZipPath)) (\<lambda>refUrl.
     let root = documentElement doc
     in bindM (rewriteRecursively E
                 (rewriteNode E fetchPage' processCssFile' inZipPath refUrl recurseChain)
                 root (toLowerCase E (nodeName root)))
          (finishDocument E doc))"

section \<open>The viewer\<close>

text \<open>
  \<open>viewer.processCssFile\<close> and \<open>viewer.fetchPage\<close>, which reach themselves through
  \<open>processCssText\<close> and \<open>parseDocument\<close>: the number bounds the depth of these calls,
  and \<open>OutOfFuel\<close> is the result of a call that goes deeper.
\<close>

primrec viewer_processCssFile :: "env \<Rightarrow> nat \<Rightarrow> rewriteFunc" where
  "viewer_processCssFile E 0 = (\<lambda>params st. OutOfFuel)"
| "viewer_processCssFile E (Suc n) = processCssFile (processCssText E (viewer_processCssFile E n))"

primrec viewer_fetchPage :: "env \<Rightarrow> nat \<Rightarrow> fetchPageFun" where
  "viewer_fetchPage E 0 = (\<lambda>inZipPath url recurseChain st. OutOfFuel)"
| "viewer_fetchPage E (Suc n) =
     fetchPage E (parseDocument E (viewer_fetchPage E n) (viewer_processCssFile E n))"

text \<open>
  The loop of \<open>init\<close> that fills the store: an entry of the cache is its path, whether
  it is a directory, and its file; \<open>dir\<close> is empty when there is none.
\<close>

fun populateStore :: "env \<Rightarrow> jsstring \<Rightarrow> (jsstring \<times> bool \<times> blob) list \<Rightarrow> unit M" where
  "populateStore E dir [] = returnM ()"
| "populateStore E dir ((inZipPath, isDir, f) # entries) =
     (if isDir then populateStore E dir entries
      else if dir \<noteq> [] \<and> \<not> startsWith inZipPath (dir @ lit ''/'') then populateStore E dir entries
      else
        bindM (createObjectURL E f) (\<lambda>u.
        bindM (\<lambda>st. Ok () (st\<lparr>inZipFiles := (inZipFiles st)(inZipPath \<mapsto> \<lparr>entryFile = f, entryUrl = u\<rparr>),
                              blobUrlToInZipPath := (blobUrlToInZipPath st)(u \<mapsto> inZipPath)\<rparr>))
          (\<lambda>_. populateStore E dir entries)))"


section \<open>An example archive\<close>

text \<open>
  An environment and a store for concrete runs. The URL parser of the example takes a
  string with a colon as absolute and resolves any other string against the directory of
  the base; it does not normalise. Documents are recognised by the text of their blob.
\<close>

definition dirOf :: "jsstring \<Rightarrow> jsstring" where
  "dirOf s = rev (dropWhile (\<lambda>c. c \<noteq> 47) (rev s))"

definition exampleNewURL :: "jsstring \<Rightarrow> jsstring option \<Rightarrow> jsurl option" where
  "exampleNewURL u base =
     (case splitUrl u of
        (name, search, hash) \<Rightarrow>
          (let q = (if search = [] then None else Some (tl search));
               f = (if hash = [] then None else Some (tl hash))
           in if 58 \<in> set name then Some \<lparr>urlMain = name, urlQuery = q, urlFragment = f\<rparr>
              else
                (case base of
                   None \<Rightarrow> None
                 | Some b \<Rightarrow>
                     (case splitUrl b of
                        (bname, bsearch, bhash) \<Rightarrow>
                          if name = [] then
                            Some \<lparr>urlMain = bname,
                                  urlQuery = (if search = [] \<and> bsearch \<noteq> [] then Some (tl bsearch) else q),
                                  urlFragment = f\<rparr>
                          else Some \<lparr>urlMain = dirOf bname @ name, urlQuery = q, urlFragment = f\<rparr>))))"

definition asciiLower :: "nat \<Rightarrow> nat" where
  "asciiLower c = (if 65 \<le> c \<and> c \<le> 90 then c + 32 else c)"

fun exampleAttrs :: "(jsstring \<times> jsstring) list \<Rightarrow> jsstring" where
  "exampleAttrs [] = []"
| "exampleAttrs ((a, v) # r) = [32] @ a @ [61, 34] @ v @ [34] @ exampleAttrs r"

fun exampleOuterHTML :: "node \<Rightarrow> jsstring" where
  "exampleOuterHTML (TextNode t) = t"
| "exampleOuterHTML (Element n as cs) =
     [60] @ n @ exampleAttrs as @ [62] @ concat (map exampleOuterHTML cs) @ [60, 47] @ n @ [62]"

definition pageA :: document where
  "pageA =
     \<lparr>doctypeString = lit ''<!DOCTYPE html>'',
      contentType = lit ''text/html'',
      documentElement =
        Element (lit ''html'') []
          [Element (lit ''head'') [] [],
           Element (lit ''body'') []
             [Element (lit ''iframe'') [(lit ''src'', lit ''b.html'')] []]]\<rparr>"

definition pageB :: document where
  "pageB =
     \<lparr>doctypeString = lit ''<!DOCTYPE html>'',
      contentType = lit ''text/html'',
      documentElement =
        Element (lit ''html'') []
          [Element (lit ''head'') [] [],
           Element (lit ''body'') []
             [Element (lit ''iframe'') [(lit ''src'', lit ''index.html'')] []]]\<rparr>"

definition exampleCss :: "cssPiece list" where
  \<open>exampleCss =
     [CssText (lit ''@import "''), CssImportUrl (lit ''style.css''), CssText (lit ''"; p { background: url("''),
      CssBackgroundUrl (lit ''http://example.com/bg.png''), CssText (lit ''"); }'')]\<close>

definition exampleEnv :: env where
  "exampleEnv =
     \<lparr>virtualBase = lit ''chrome-extension://abc/viewer/!/'',
      newURL = exampleNewURL,
      toLowerCase = map asciiLower,
      objectUrlName = (\<lambda>n. lit ''blob:x'' @ replicate n 120),
      getUuid = (\<lambda>n. lit ''00000000-0000-4000-8000-'' @ replicate n 49 @ replicate (12 - n) 48),
      readFileAsDocument =
        (\<lambda>b. if blobData b = lit ''A'' then Some pageA
              else if blobData b = lit ''B'' then Some pageB else None),
      outerHTML = exampleOuterHTML,
      parseHeaderRefresh =
        (\<lambda>c. (takeWhile (\<lambda>x. x \<noteq> 59) c, drop 5 (dropWhile (\<lambda>x. x \<noteq> 59) c))),
      escapeHtml = (\<lambda>s b. s),
      rewriteSrcset = (\<lambda>s f. f s),
      cssPieces = (\<lambda>t. if t = lit ''C'' then exampleCss else [CssText t]),
      xhr = (\<lambda>u. Inr None),
      hasCsp = False,
      deApiScriptText = [],
      metaRefreshIdentifier = lit ''data-scrapbook-meta-refresh-20170101'',
      resetCssUrl = lit ''chrome-extension://abc/core/reset.css'',
      matchesRelStylesheet = (\<lambda>e. getAttribute e (lit ''rel'') = Some (lit ''stylesheet'')),
      srcProperty = (\<lambda>u. u),
      typeProperty = (\<lambda>e. orElse (getAttribute e (lit ''type'')) (lit ''text''))\<rparr>"

text \<open>
  The store after \<open>init\<close> has loaded \<open>index.html\<close>, \<open>b.html\<close> and \<open>style.css\<close>; the
  array at address 0 is the empty chain that \<open>init\<close> passes to \<open>fetchPage\<close>.
\<close>

definition exampleFiles :: "(jsstring \<times> zipEntry) list" where
  "exampleFiles =
     [(lit ''index.html'',
         \<lparr>entryFile = \<lparr>blobType = lit ''text/html'', blobData = lit ''A''\<rparr>, entryUrl = lit ''blob:x''\<rparr>),
      (lit ''b.html'',
         \<lparr>entryFile = \<lparr>blobType = lit ''text/html'', blobData = lit ''B''\<rparr>, entryUrl = lit ''blob:xx''\<rparr>),
      (lit ''style.css'',
         \<lparr>entryFile = \<lparr>blobType = lit ''text/css'', blobData = lit ''C''\<rparr>, entryUrl = lit ''blob:xxx''\<rparr>)]"

definition exampleState :: vstate where
  "exampleState =
     \<lparr>inZipFiles = map_of exampleFiles,
      blobUrlToInZipPath = map_of (map (\<lambda>(p, f). (entryUrl f, p)) exampleFiles),
      rewrittenBlobUrl = {},
      objectStore = map (\<lambda>(p, f). (entryUrl f, entryFile f)) exampleFiles,
      uuidCount = 0,
      deApiScriptUrl = None,
      arrays = (\<lambda>a. []),
      arrayCount = 1\<rparr>"

text \<open>
  A second archive: its only page, \<open>a+b.html\<close>, holds a meta refresh to itself.
\<close>

definition refreshMeta :: node where
  "refreshMeta =
     Element (lit ''meta'')
       [(lit ''http-equiv'', lit ''refresh''), (lit ''content'', lit ''0;url=a+b.html#x'')] []"

definition refreshPage :: document where
  "refreshPage =
     \<lparr>doctypeString = lit ''<!DOCTYPE html>'',
      contentType = lit ''text/html'',
      documentElement = Element (lit ''html'') [] [Element (lit ''head'') [] [refreshMeta]]\<rparr>"

definition refreshEnv :: env where
  "refreshEnv =
     exampleEnv\<lparr>readFileAsDocument :=
                  (\<lambda>b. if blobData b = lit ''R'' then Some refreshPage else None)\<rparr>"

definition refreshState :: vstate where
  "refreshState =
     \<lparr>inZipFiles =
        [lit ''a+b.html'' \<mapsto>
           \<lparr>entryFile = \<lparr>blobType = lit ''text/html'', blobData = lit ''R''\<rparr>,
            entryUrl = lit ''blob:x''\<rparr>],
      blobUrlToInZipPath = [lit ''blob:x'' \<mapsto> lit ''a+b.html''],
      rewrittenBlobUrl = {},
      objectStore = [(lit ''blob:x'', \<lparr>blobType = lit ''text/html'', blobData = lit ''R''\<rparr>)],
      uuidCount = 0,
      deApiScriptUrl = None,
      arrays = (\<lambda>a. []),
      arrayCount = 1\<rparr>"

section \<open>Notions for the frame recursion\<close>

text \<open>
  The viewer's data after a step extend the data before it: the store is the same, and
  every array that existed holds what it held.
\<close>

definition extends :: "vstate \<Rightarrow> vstate \<Rightarrow> bool" where
  "extends s s' \<longleftrightarrow>
     inZipFiles s' = inZipFiles s \<and> arrayCount s \<le> arrayCount s' \<and>
     (\<forall>a < arrayCount s. arrays s' a = arrays s a)"

text \<open>
  A computation that has extended the data when it ends, by a value or by an exception;
  with \<open>strict\<close>, it also ends from \<open>s\<close> within its depth.
\<close>

definition ends :: "bool \<Rightarrow> 'a M \<Rightarrow> vstate \<Rightarrow> bool" where
  "ends strict m s \<longleftrightarrow>
     (case m s of OutOfFuel \<Rightarrow> \<not> strict | Raise e s' \<Rightarrow> extends s s' | Ok x s' \<Rightarrow> extends s s')"

text \<open>The paths of the store whose virtual URL is not in a chain.\<close>

definition unvisited :: "env \<Rightarrow> vstate \<Rightarrow> jsstring list \<Rightarrow> jsstring set" where
  "unvisited E s chain =
     {p \<in> dom (inZipFiles s).
        \<forall>u. inZipPathToUrl (virtualBase E) (Some p) = Inr u \<longrightarrow> u \<notin> set chain}"

text \<open>
  A call \<open>fetchPage({inZipPath: q, recurseChain: c})\<close> from \<open>s\<close> for which fewer than
  \<open>m\<close> paths of the store stay unvisited once the page itself is in the chain.
\<close>

definition fetchable :: "env \<Rightarrow> nat \<Rightarrow> vstate \<Rightarrow> jsstring option \<Rightarrow> nat \<Rightarrow> bool" where
  "fetchable E m s q c \<longleftrightarrow>
     finite (dom (inZipFiles s)) \<and> c < arrayCount s \<and>
     (\<forall>p u. q = Some p \<and> p \<in> dom (inZipFiles s) \<and>
            inZipPathToUrl (virtualBase E) (Some p) = Inr u \<longrightarrow>
            card (unvisited E s (arrays s c @ [u])) < m)"

text \<open>
  A \<open>fetchPage\<close> that extends the data when it ends and, with \<open>strict\<close>, ends for
  every call that is fetchable with bound \<open>m\<close>.
\<close>

definition fetchEnds :: "env \<Rightarrow> bool \<Rightarrow> nat \<Rightarrow> fetchPageFun \<Rightarrow> bool" where
  "fetchEnds E strict m fp \<longleftrightarrow>
     (\<forall>s q url c. (strict \<longrightarrow> fetchable E m s q c) \<longrightarrow> ends strict (fp q url c) s)"

text \<open>
  The elements for which \<open>rewriteNode\<close> starts a task other than the fetch of a framed
  page, or makes an object URL: by their names, and by a \<open>style\<close> attribute. A tree is
  plain when it has none of them.
\<close>

definition taskNames :: "jsstring set" where
  "taskNames =
     {lit ''meta'', lit ''link'', lit ''style'', lit ''script'', lit ''embed'', lit ''object'',
      lit ''applet''}"

fun plainTree :: "env \<Rightarrow> node \<Rightarrow> bool" where
  "plainTree E (TextNode t) = True"
| "plainTree E (Element n as cs) =
     (toLowerCase E n \<notin> taskNames \<and> map_of as (lit ''style'') = None \<and>
      (\<forall>c \<in> set cs. plainTree E c))"

section \<open>Properties\<close>

subsection \<open>PathCodec\<close>

lemma hexVal_hexDigit: "d < 16 \<Longrightarrow> hexVal (hexDigit d) = Some d"
  by (auto simp: hexVal_def hexDigit_def)

lemma takePct_pctByte: "b < 256 \<Longrightarrow> takePct (pctByte b @ r) = Some (b, r)"
  by (simp add: pctByte_def hexVal_hexDigit)

lemma takePct_not_pct: "c \<noteq> 37 \<Longrightarrow> takePct (c # r) = None"
  by (cases "c # r" rule: takePct.cases) auto

lemma recompose2: "(c::nat) div 64 mod 64 * 64 + c mod 64 = c mod 4096"
  using mod_mult2_eq [of c 64 64] by simp

lemma recompose3: "(c::nat) div 4096 * 4096 + c div 64 mod 64 * 64 + c mod 64 = c"
proof -
  have "c div 4096 * 4096 + c mod 4096 = c" by simp
  then show ?thesis using recompose2 [of c] by linarith
qed

lemma recompose4:
  "(c::nat) div 262144 * 262144 + c div 4096 mod 64 * 4096 + c div 64 mod 64 * 64 + c mod 64 = c"
proof -
  have "c mod 262144 = 4096 * (c div 4096 mod 64) + c mod 4096"
    using mod_mult2_eq [of c 4096 64] by simp
  moreover have "c div 262144 * 262144 + c mod 262144 = c" by simp
  ultimately show ?thesis using recompose2 [of c] by linarith
qed

lemma escapedAt_utf8:
  assumes "isScalar c"
  shows "escapedAt (concat (map pctByte (utf8 c)) @ r) = Some (c, 3 * length (utf8 c))"
proof -
  consider "c < 0x80" | "0x80 \<le> c" "c < 0x800" | "0x800 \<le> c" "c < 0x10000" | "0x10000 \<le> c" "c < 0x110000"
    using assms unfolding isScalar_def by linarith
  then show ?thesis
  proof cases
    case 1
    then show ?thesis by (simp add: utf8_def escapedAt_def takePct_pctByte)
  next
    case 2
    then show ?thesis
      by (simp add: utf8_def escapedAt_def takePct_pctByte isCont_def Let_def)
  next
    case 3
    then show ?thesis using assms
      by (simp add: utf8_def escapedAt_def takePct_pctByte isCont_def Let_def recompose3)
  next
    case 4
    then show ?thesis
      by (simp add: utf8_def escapedAt_def takePct_pctByte isCont_def Let_def recompose4)
  qed
qed

lemma utf8_length: "length (utf8 c) \<in> {1, 2, 3, 4}"
  by (simp add: utf8_def)

lemma escaped_shape:
  "\<exists>t. concat (map pctByte (utf8 c)) = 37 # t \<and> length t = 3 * length (utf8 c) - 1"
  by (simp add: utf8_def pctByte_def)

lemma decode_escaped:
  assumes "isScalar c"
  shows "sb_decodeURIComponent (concat (map pctByte (utf8 c)) @ r) = c # sb_decodeURIComponent r"
proof -
  obtain t where t: "concat (map pctByte (utf8 c)) = 37 # t"
    and len: "length t = 3 * length (utf8 c) - 1"
    using escaped_shape by blast
  have "escapedAt (37 # t @ r) = Some (c, 3 * length (utf8 c))"
    using escapedAt_utf8 [OF assms, of r] t by simp
  then show ?thesis using t len by simp
qed

lemma unreserved_not_pct: "uriUnreserved c \<Longrightarrow> c \<noteq> 37"
  by (auto simp: uriUnreserved_def)

lemma decode_unreserved:
  "uriUnreserved c \<Longrightarrow> sb_decodeURIComponent (c # r) = c # sb_decodeURIComponent r"
  by (simp add: escapedAt_def takePct_not_pct unreserved_not_pct)

lemma decode_encode:
  "encodeURIComponent s = Inr e \<Longrightarrow> sb_decodeURIComponent e = s"
proof (induction s arbitrary: e)
  case Nil
  then show ?case by simp
next
  case (Cons c cs)
  show ?case
  proof (cases "uriUnreserved c")
    case True
    with Cons.prems obtain r where r: "encodeURIComponent cs = Inr r" and e: "e = c # r"
      by (auto split: sum.splits)
    show ?thesis using Cons.IH [OF r] e True by (simp only: decode_unreserved)
  next
    case False
    with Cons.prems have sc: "isScalar c" by (auto split: if_splits)
    with False Cons.prems obtain r where r: "encodeURIComponent cs = Inr r"
      and e: "e = concat (map pctByte (utf8 c)) @ r"
      by (auto split: sum.splits)
    show ?thesis using Cons.IH [OF r] e sc by (simp only: decode_escaped)
  qed
qed

lemma encode_total:
  "list_all isScalar s \<Longrightarrow> \<exists>e. encodeURIComponent s = Inr e"
  by (induction s) auto

lemma hexDigit_not_slash: "hexDigit d \<noteq> 47"
  by (simp add: hexDigit_def)

lemma escaped_no_slash: "47 \<notin> set (concat (map pctByte (utf8 c)))"
  by (simp add: utf8_def pctByte_def hexDigit_not_slash)

lemma encode_no_slash: "encodeURIComponent s = Inr e \<Longrightarrow> 47 \<notin> set e"
proof (induction s arbitrary: e)
  case Nil
  then show ?case by simp
next
  case (Cons c cs)
  then show ?case
    using escaped_no_slash [of c]
    by (auto split: if_splits sum.splits simp: uriUnreserved_def)
qed

lemma js_split_nonempty: "js_split c s \<noteq> []"
  by (induction s) (auto split: list.splits)

lemma js_split_no_sep: "c \<notin> set s \<Longrightarrow> js_split c s = [s]"
  by (induction s) auto

lemma js_split_append:
  "c \<notin> set s \<Longrightarrow> js_split c (s @ c # r) = s # js_split c r"
  by (induction s) auto

lemma js_split_join:
  "segs \<noteq> [] \<Longrightarrow> \<forall>s \<in> set segs. c \<notin> set s \<Longrightarrow> js_split c (js_join [c] segs) = segs"
proof (induction "[c]" segs rule: js_join.induct)
  case 1
  then show ?case by simp
next
  case (2 s)
  then show ?case by (simp add: js_split_no_sep)
next
  case (3 s t ss)
  then show ?case by (simp add: js_split_append)
qed

lemma js_join_split: "js_join [c] (js_split c s) = s"
proof (induction s)
  case Nil
  then show ?case by simp
next
  case (Cons x xs)
  show ?case
  proof (cases "js_split c xs")
    case Nil
    then show ?thesis using js_split_nonempty by blast
  next
    case (Cons a as)
    then show ?thesis using Cons.IH by (cases as) auto
  qed
qed

lemma mapE_length: "mapE f xs = Inr ys \<Longrightarrow> length ys = length xs"
  by (induction xs arbitrary: ys) (auto split: sum.splits)

lemma mapE_all2: "mapE f xs = Inr ys \<Longrightarrow> list_all2 (\<lambda>x y. f x = Inr y) xs ys"
  by (induction xs arbitrary: ys) (auto split: sum.splits)

lemma mapE_total:
  "\<forall>x \<in> set xs. \<exists>y. f x = Inr y \<Longrightarrow> \<exists>ys. mapE f xs = Inr ys"
  by (induction xs) auto

lemma set_js_split: "t \<in> set (js_split c s) \<Longrightarrow> set t \<subseteq> set s"
proof (induction s arbitrary: t)
  case Nil
  then show ?case by simp
next
  case (Cons x xs)
  show ?case
  proof (cases "js_split c xs")
    case Nil
    then show ?thesis using js_split_nonempty by blast
  next
    case (Cons a as)
    have a: "set a \<subseteq> set xs" using Cons.IH [of a] Cons by simp
    have as: "\<forall>u \<in> set as. set u \<subseteq> set xs" using Cons.IH Cons by simp
    show ?thesis using Cons.prems Cons a as by (auto split: if_splits)
  qed
qed

lemma mapE_decode:
  "mapE encodeURIComponent xs = Inr ys \<Longrightarrow> map sb_decodeURIComponent ys = xs"
  by (induction xs arbitrary: ys) (auto split: sum.splits simp: decode_encode)

lemma mapE_no_slash:
  "mapE encodeURIComponent xs = Inr ys \<Longrightarrow> \<forall>s \<in> set ys. 47 \<notin> set s"
  by (induction xs arbitrary: ys) (auto split: sum.splits dest: encode_no_slash)

text \<open>
  Stripping the virtual base from the URL that \<open>inZipPathToUrl\<close> makes and decoding each
  segment gives the path back, for every path of well-formed text.
\<close>

lemma codec_round_trip:
  assumes "list_all isScalar p"
  shows "\<exists>u. inZipPathToUrl vb (Some p) = Inr u \<and> hrefToInZipPath vb u = p"
proof -
  have "\<forall>t \<in> set (js_split 47 p). \<exists>e. encodeURIComponent t = Inr e"
  proof
    fix t assume "t \<in> set (js_split 47 p)"
    then have "set t \<subseteq> set p" by (rule set_js_split)
    then have "list_all isScalar t"
      using assms by (auto simp: list_all_iff)
    then show "\<exists>e. encodeURIComponent t = Inr e" by (rule encode_total)
  qed
  then obtain segs where segs: "mapE encodeURIComponent (js_split 47 p) = Inr segs"
    using mapE_total by blast
  have ne: "segs \<noteq> []"
    using mapE_length [OF segs] js_split_nonempty [of 47 p] by auto
  have "js_split 47 (js_join [47] segs) = segs"
    using js_split_join [OF ne mapE_no_slash [OF segs]] .
  then have "hrefToInZipPath vb (vb @ js_join [47] segs) = p"
    by (simp add: hrefToInZipPath_def mapE_decode [OF segs] js_join_split)
  then show ?thesis by (simp add: inZipPathToUrl_def segs)
qed

subsection \<open>Evaluation of the example\<close>

lemmas monad_defs = bindM_def returnM_def throwM_def catchM_def liftE_def getState_def

lemma lit_simps: "lit [] = []" "lit (c # cs) = of_char c # lit cs"
  by (simp_all add: lit_def)

lemma ex1: "exampleNewURL (lit ''nonexist.html'') None = None"
  by (simp add: exampleNewURL_def lit_simps splitUrl_def splitUrlByAnchor_def)

lemma ex2: "exampleNewURL (lit ''missing.html?q#f'') (Some (lit ''chrome-extension://abc/viewer/!/index.html'')) = 
  Some \<lparr>urlMain = lit ''chrome-extension://abc/viewer/!/missing.html'', urlQuery = Some (lit ''q''), urlFragment = Some (lit ''f'')\<rparr>"
  by (simp add: exampleNewURL_def lit_simps splitUrl_def splitUrlByAnchor_def dirOf_def)


lemma exampleEnv_sel:
  "virtualBase exampleEnv = lit ''chrome-extension://abc/viewer/!/''"
  "newURL exampleEnv = exampleNewURL"
  "toLowerCase exampleEnv = map asciiLower"
  "objectUrlName exampleEnv = (\<lambda>n. lit ''blob:x'' @ replicate n 120)"
  "getUuid exampleEnv = (\<lambda>n. lit ''00000000-0000-4000-8000-'' @ replicate n 49 @ replicate (12 - n) 48)"
  "readFileAsDocument exampleEnv =
     (\<lambda>b. if blobData b = lit ''A'' then Some pageA
           else if blobData b = lit ''B'' then Some pageB else None)"
  "outerHTML exampleEnv = exampleOuterHTML"
  "escapeHtml exampleEnv = (\<lambda>s b. s)"
  "cssPieces exampleEnv = (\<lambda>t. if t = lit ''C'' then exampleCss else [CssText t])"
  "hasCsp exampleEnv = False"
  "metaRefreshIdentifier exampleEnv = lit ''data-scrapbook-meta-refresh-20170101''"
  "resetCssUrl exampleEnv = lit ''chrome-extension://abc/core/reset.css''"
  by (simp_all add: exampleEnv_def)

lemma exampleState_sel:
  "inZipFiles exampleState = map_of exampleFiles"
  "rewrittenBlobUrl exampleState = {}"
  "objectStore exampleState = map (\<lambda>(p, f). (entryUrl f, entryFile f)) exampleFiles"
  "uuidCount exampleState = 0"
  "deApiScriptUrl exampleState = None"
  "arrays exampleState = (\<lambda>a. [])"
  "arrayCount exampleState = 1"
  by (simp_all add: exampleState_def)

lemma ex_missing_path:
  "hrefToInZipPath (lit ''chrome-extension://abc/viewer/!/'')
     (lit ''chrome-extension://abc/viewer/!/missing.html'') = lit ''missing.html''"
  by (simp add: hrefToInZipPath_def lit_simps escapedAt_def)

lemma ex_missing_lookup: "map_of exampleFiles (lit ''missing.html'') = None"
  by (simp add: exampleFiles_def lit_simps)

subsection \<open>UrlResolver\<close>

text \<open>
  C2. \<open>parseUrl\<close> is a total function whose result is a value, never an exception.
  For a string that \<open>new URL\<close> cannot parse against the reference URL, and for a URL
  under the virtual base whose decoded archive path has no entry in \<open>inZipFiles\<close>, the
  result is \<open>{url, inZip: false}\<close> with \<open>url\<close> the string that was passed in.
\<close>

theorem parseUrl_degrades:
  "(newURL E url (if refUrl = [] then None else Some refUrl) = None \<longrightarrow>
      parseUrl E st url refUrl = notInZip url \<and>
      info_inZip (parseUrl E st url refUrl) = False \<and>
      info_url (parseUrl E st url refUrl) = url) \<and>
   (\<forall>a. newURL E url (if refUrl = [] then None else Some refUrl) = Some a \<and>
        startsWith (href a) (virtualBase E) \<and>
        inZipFiles st
          (hrefToInZipPath (virtualBase E)
             (href (a\<lparr>urlQuery := None, urlFragment := None\<rparr>))) = None \<longrightarrow>
      parseUrl E st url refUrl = notInZip url \<and>
      info_inZip (parseUrl E st url refUrl) = False \<and>
      info_url (parseUrl E st url refUrl) = url)"
  by (auto simp: parseUrl_def notInZip_def Let_def)

theorem parseUrl_degrades_witness:
  "newURL exampleEnv (lit ''nonexist.html'') None = None \<and>
   info_inZip (parseUrl exampleEnv exampleState (lit ''nonexist.html'') []) = False \<and>
   info_url (parseUrl exampleEnv exampleState (lit ''nonexist.html'') []) = lit ''nonexist.html'' \<and>
   (\<exists>a. newURL exampleEnv (lit ''missing.html?q#f'')
          (Some (lit ''chrome-extension://abc/viewer/!/index.html'')) = Some a \<and>
        startsWith (href a) (virtualBase exampleEnv) \<and>
        inZipFiles exampleState
          (hrefToInZipPath (virtualBase exampleEnv)
             (href (a\<lparr>urlQuery := None, urlFragment := None\<rparr>))) = None) \<and>
   info_inZip (parseUrl exampleEnv exampleState (lit ''missing.html?q#f'')
                 (lit ''chrome-extension://abc/viewer/!/index.html'')) = False \<and>
   info_url (parseUrl exampleEnv exampleState (lit ''missing.html?q#f'')
               (lit ''chrome-extension://abc/viewer/!/index.html'')) = lit ''missing.html?q#f''"
proof -
  let ?ref = "lit ''chrome-extension://abc/viewer/!/index.html''"
  let ?a = "\<lparr>urlMain = lit ''chrome-extension://abc/viewer/!/missing.html'',
             urlQuery = Some (lit ''q''), urlFragment = Some (lit ''f'')\<rparr>"
  have ref: "?ref \<noteq> []"
    by (simp add: lit_simps)
  have p1: "newURL exampleEnv (lit ''nonexist.html'') (if [] = [] then None else Some []) = None"
    by (simp add: exampleEnv_sel ex1)
  have n2: "newURL exampleEnv (lit ''missing.html?q#f'') (Some ?ref) = Some ?a"
    by (simp add: exampleEnv_sel ex2)
  have sw: "startsWith (href ?a) (virtualBase exampleEnv)"
    by (simp add: exampleEnv_sel startsWith_def href_def lit_simps)
  have lk: "inZipFiles exampleState
              (hrefToInZipPath (virtualBase exampleEnv)
                 (href (?a\<lparr>urlQuery := None, urlFragment := None\<rparr>))) = None"
    by (simp add: exampleEnv_sel exampleState_sel href_def ex_missing_path ex_missing_lookup)
  have p2: "newURL exampleEnv (lit ''missing.html?q#f'')
              (if ?ref = [] then None else Some ?ref) = Some ?a \<and>
            startsWith (href ?a) (virtualBase exampleEnv) \<and>
            inZipFiles exampleState
              (hrefToInZipPath (virtualBase exampleEnv)
                 (href (?a\<lparr>urlQuery := None, urlFragment := None\<rparr>))) = None"
    using ref n2 sw lk by simp
  note t1 = parseUrl_degrades [of exampleEnv "lit ''nonexist.html''" "[]" exampleState,
      THEN conjunct1, rule_format, OF p1]
  note t2 = parseUrl_degrades [of exampleEnv "lit ''missing.html?q#f''" ?ref exampleState,
      THEN conjunct2, rule_format, OF p2]
  show ?thesis
    using t1 t2 p1 n2 sw lk by auto
qed

subsection \<open>FetchOrchestrator\<close>

text \<open>
  C8. For a path in the store, \<open>fetchFile\<close> without a \<open>rewriteFunc\<close> returns the
  locator of the entry and leaves the viewer's data as they are, so two calls in a row
  return the same locator; for a path that is not in the store \<open>fetchFile\<close> returns
  \<open>null\<close>, with or without a \<open>rewriteFunc\<close>.
\<close>

theorem fetchFile_idempotent:
  "(inZipFiles st p = Some f \<longrightarrow>
      fetchFile E (Some p) None rc st = Ok (Some (entryUrl f)) st \<and>
      bindM (fetchFile E (Some p) None rc)
        (\<lambda>u1. bindM (fetchFile E (Some p) None rc') (\<lambda>u2. returnM (u1, u2))) st =
        Ok (Some (entryUrl f), Some (entryUrl f)) st) \<and>
   (inZipFiles st p = None \<longrightarrow> fetchFile E (Some p) rf rc st = Ok None st)"
  by (simp add: fetchFile_def monad_defs)

lemma ex_index_lookup:
  "map_of exampleFiles (lit ''index.html'') =
     Some \<lparr>entryFile = \<lparr>blobType = lit ''text/html'', blobData = lit ''A''\<rparr>, entryUrl = lit ''blob:x''\<rparr>"
  by (simp add: exampleFiles_def lit_simps)

theorem fetchFile_idempotent_witness:
  "inZipFiles exampleState (lit ''index.html'') =
     Some \<lparr>entryFile = \<lparr>blobType = lit ''text/html'', blobData = lit ''A''\<rparr>, entryUrl = lit ''blob:x''\<rparr> \<and>
   bindM (fetchFile exampleEnv (Some (lit ''index.html'')) None 0)
     (\<lambda>u1. bindM (fetchFile exampleEnv (Some (lit ''index.html'')) None 0) (\<lambda>u2. returnM (u1, u2)))
     exampleState = Ok (Some (lit ''blob:x''), Some (lit ''blob:x'')) exampleState \<and>
   inZipFiles exampleState (lit ''missing.html'') = None \<and>
   fetchFile exampleEnv (Some (lit ''missing.html'')) None 0 exampleState = Ok None exampleState"
proof -
  have a: "inZipFiles exampleState (lit ''index.html'') =
     Some \<lparr>entryFile = \<lparr>blobType = lit ''text/html'', blobData = lit ''A''\<rparr>, entryUrl = lit ''blob:x''\<rparr>"
    by (simp add: exampleState_sel ex_index_lookup)
  have b: "inZipFiles exampleState (lit ''missing.html'') = None"
    by (simp add: exampleState_sel ex_missing_lookup)
  note t1 = fetchFile_idempotent [of exampleState "lit ''index.html''" _ exampleEnv 0 0,
      THEN conjunct1, rule_format, OF a]
  note t2 = fetchFile_idempotent [of exampleState "lit ''missing.html''" _ exampleEnv 0 0 None,
      THEN conjunct2, rule_format, OF b]
  show ?thesis using a b t1 t2 by simp
qed

lemma createObjectURL_eq:
  "createObjectURL E b st =
     Ok (objectUrlName E (length (objectStore st)))
        (st\<lparr>objectStore := objectStore st @ [(objectUrlName E (length (objectStore st)), b)]\<rparr>)"
  by (simp add: createObjectURL_def Let_def)

lemma createObjectURL_result:
  "createObjectURL E b st = Ok u st' \<Longrightarrow>
     (u, b) \<in> set (objectStore st') \<and> blobUrlToInZipPath st' = blobUrlToInZipPath st \<and>
     rewrittenBlobUrl st' = rewrittenBlobUrl st"
  by (auto simp: createObjectURL_def Let_def)

text \<open>
  C9. A locator that \<open>fetchFile\<close> returns after it has applied a \<open>rewriteFunc\<close> is
  mapped to the archive path of the call in \<open>blobUrlToInZipPath\<close>, is a member of
  \<open>rewrittenBlobUrl\<close>, and is an object URL of the browser.
\<close>

theorem fetchFile_records_rewritten:
  assumes "fetchFile E inZipPath (Some rf) rc st = Ok (Some u) st'"
  shows "\<exists>p b. inZipPath = Some p \<and> inZipFiles st p \<noteq> None \<and>
           blobUrlToInZipPath st' u = Some p \<and> u \<in> rewrittenBlobUrl st' \<and>
           (u, b) \<in> set (objectStore st')"
  using assms
  by (auto simp: fetchFile_def monad_defs recordRewritten_def createObjectURL_def Let_def
      split: option.splits sum.splits res.splits)


lemma ex_encode_index: "encodeURIComponent (lit ''index.html'') = Inr (lit ''index.html'')"
  by (simp add: lit_simps uriUnreserved_def)

lemma ex_index_url:
  "inZipPathToUrl (lit ''chrome-extension://abc/viewer/!/'') (Some (lit ''index.html'')) =
     Inr (lit ''chrome-extension://abc/viewer/!/index.html'')"
proof -
  have "js_split 47 (lit ''index.html'') = [lit ''index.html'']"
    by (rule js_split_no_sep) (simp add: lit_simps)
  then show ?thesis
    by (simp add: inZipPathToUrl_def ex_encode_index) (simp add: lit_simps)
qed

theorem fetchFile_records_rewritten_witness:
  "\<exists>st'. fetchFile exampleEnv (Some (lit ''index.html'')) (Some (\<lambda>params. returnM (rp_data params))) 0
            exampleState = Ok (Some (lit ''blob:xxxx'')) st' \<and>
         blobUrlToInZipPath st' (lit ''blob:xxxx'') = Some (lit ''index.html'') \<and>
         lit ''blob:xxxx'' \<in> rewrittenBlobUrl st'"
proof -
  have "\<exists>st'. fetchFile exampleEnv (Some (lit ''index.html'')) (Some (\<lambda>params. returnM (rp_data params))) 0
            exampleState = Ok (Some (lit ''blob:xxxx'')) st'"
    by (simp add: fetchFile_def monad_defs exampleState_sel exampleEnv_sel ex_index_lookup
        ex_index_url createObjectURL_eq recordRewritten_def exampleFiles_def)
       (simp add: lit_simps)
  then obtain st' where
    r: "fetchFile exampleEnv (Some (lit ''index.html'')) (Some (\<lambda>params. returnM (rp_data params))) 0
            exampleState = Ok (Some (lit ''blob:xxxx'')) st'"
    by blast
  from fetchFile_records_rewritten [OF r] r show ?thesis by auto
qed

lemma splitUrl_parts:
  "splitUrl u = (base, search, hash) \<Longrightarrow>
     u = base @ search @ hash \<and> 35 \<notin> set base \<and> 35 \<notin> set search \<and> 63 \<notin> set base \<and>
     (search = [] \<or> hd search = 63) \<and> (hash = [] \<or> hd hash = 35)"
proof -
  assume a: "splitUrl u = (base, search, hash)"
  let ?name = "takeWhile (\<lambda>c. c \<noteq> 35) u"
  have b: "base = takeWhile (\<lambda>c. c \<noteq> 63) ?name" and s: "search = dropWhile (\<lambda>c. c \<noteq> 63) ?name"
    and h: "hash = dropWhile (\<lambda>c. c \<noteq> 35) u"
    using a by (auto simp: splitUrl_def splitUrlByAnchor_def)
  have n: "35 \<notin> set ?name"
    by (metis (mono_tags, lifting) set_takeWhileD)
  have bs: "base @ search = ?name" using b s by simp
  have "35 \<notin> set base" "35 \<notin> set search"
    using n bs by (metis Un_iff set_append)+
  moreover have "63 \<notin> set base"
    unfolding b by (metis (mono_tags, lifting) set_takeWhileD)
  moreover have "search = [] \<or> hd search = 63"
    unfolding s by (metis (mono_tags, lifting) hd_dropWhile)
  moreover have "hash = [] \<or> hd hash = 35"
    unfolding h by (metis (mono_tags, lifting) hd_dropWhile)
  moreover have "u = base @ search @ hash"
    using bs h by (metis append.assoc takeWhile_dropWhile_id)
  ultimately show ?thesis by blast
qed

text \<open>
  C10. When \<open>fetchFile\<close> returns a locator for the page, \<open>fetchPage\<close> returns that
  locator followed by the fragment of the requested URL and by nothing else: the URL is
  its base, its query and its fragment, and the query is left out.
\<close>

theorem fetchPage_fragment_only:
  assumes "fetchFile E inZipPath (Some (pageRewriteFunc E parseDocument' inZipPath)) rc st = Ok (Some u) st'"
    and "u \<noteq> []"
  shows "\<exists>base search hash.
           splitUrl url = (base, search, hash) \<and> url = base @ search @ hash \<and>
           35 \<notin> set base \<and> 35 \<notin> set search \<and>
           (search = [] \<or> hd search = 63) \<and> (hash = [] \<or> hd hash = 35) \<and>
           fetchPage E parseDocument' inZipPath url rc st = Ok (Some (u @ hash)) st'"
proof -
  obtain base search hash where sp: "splitUrl url = (base, search, hash)"
    by (metis prod_cases3)
  have e: "url = [] \<Longrightarrow> hash = []"
    using sp by (simp add: splitUrl_def splitUrlByAnchor_def)
  have "fetchPage E parseDocument' inZipPath url rc st = Ok (Some (u @ hash)) st'"
    using assms sp e by (simp add: fetchPage_def monad_defs Let_def)
  then show ?thesis using splitUrl_parts [OF sp] sp by blast
qed


theorem fetchPage_fragment_only_witness:
  "\<exists>st'. fetchFile exampleEnv (Some (lit ''index.html''))
           (Some (pageRewriteFunc exampleEnv (\<lambda>doc p rc. returnM \<lparr>blobType = contentType doc, blobData = []\<rparr>)
                    (Some (lit ''index.html'')))) 0 exampleState = Ok (Some (lit ''blob:xxxx'')) st' \<and>
         lit ''blob:xxxx'' \<noteq> [] \<and>
         fetchPage exampleEnv (\<lambda>doc p rc. returnM \<lparr>blobType = contentType doc, blobData = []\<rparr>)
           (Some (lit ''index.html'')) (lit ''index.html?x=1#top'') 0 exampleState =
           Ok (Some (lit ''blob:xxxx#top'')) st'"
proof -
  let ?pd = "\<lambda>(doc::document) (p::jsstring option) (rc::nat). returnM \<lparr>blobType = contentType doc, blobData = []\<rparr>"
  have "\<exists>st'. fetchFile exampleEnv (Some (lit ''index.html''))
           (Some (pageRewriteFunc exampleEnv ?pd (Some (lit ''index.html'')))) 0 exampleState =
           Ok (Some (lit ''blob:xxxx'')) st'"
    by (simp add: fetchFile_def pageRewriteFunc_def monad_defs exampleState_sel exampleEnv_sel
        ex_index_lookup ex_index_url createObjectURL_eq recordRewritten_def exampleFiles_def)
       (simp add: lit_simps)
  then obtain st' where
    r: "fetchFile exampleEnv (Some (lit ''index.html''))
           (Some (pageRewriteFunc exampleEnv ?pd (Some (lit ''index.html'')))) 0 exampleState =
           Ok (Some (lit ''blob:xxxx'')) st'"
    by blast
  have ne: "lit ''blob:xxxx'' \<noteq> []" by (simp add: lit_simps)
  have sp: "splitUrl (lit ''index.html?x=1#top'') = (lit ''index.html'', lit ''?x=1'', lit ''#top'')"
    by (simp add: splitUrl_def splitUrlByAnchor_def lit_simps)
  from fetchPage_fragment_only [OF r ne, of "lit ''index.html?x=1#top''"] sp
  have "fetchPage exampleEnv ?pd (Some (lit ''index.html'')) (lit ''index.html?x=1#top'') 0 exampleState =
           Ok (Some (lit ''blob:xxxx'' @ lit ''#top'')) st'"
    by auto
  then show ?thesis using r ne by (auto simp: lit_simps)
qed

subsection \<open>DocumentRewriter: links\<close>

lemma map_of_setProp: "map_of (setProp a v as) b = (if b = a then Some v else map_of as b)"
  by (induction as) auto


lemma getAttribute_setAttribute_other:
  "b \<noteq> a \<Longrightarrow> getAttribute (setAttribute e a v) b = getAttribute e b"
  by (cases e) (auto simp: map_of_setProp)

lemma parseUrl_inZip:
  assumes "info_inZip (parseUrl E st v refUrl)"
  shows "\<exists>p f h. info_inZipPath (parseUrl E st v refUrl) = Some p \<and> inZipFiles st p = Some f \<and>
           info_hash (parseUrl E st v refUrl) = Some h \<and> (h = [] \<or> hd h = 35) \<and>
           info_url (parseUrl E st v refUrl) = entryUrl f @ h"
  using assms
  by (auto simp: parseUrl_def notInZip_def Let_def url_hash_def split: option.splits if_splits)


lemma rewriteLinkAttr_other:
  "b \<noteq> a \<Longrightarrow> getAttribute (rewriteLinkAttr E st inZipPath refUrl a elem) b = getAttribute elem b"
  by (simp add: rewriteLinkAttr_def Let_def getAttribute_setAttribute_other split: option.splits)









subsection \<open>RecursionGuard: child chains\<close>

lemma childChain_eq:
  "childChain rc refUrl st =
     Ok (arrayCount st)
        (st\<lparr>arrays := (arrays st)(arrayCount st := arrays st rc @ [refUrl]),
            arrayCount := Suc (arrayCount st)\<rparr>)"
  by (simp add: childChain_def jsonCopy_def newArray_def push_def monad_defs)

lemma newFetcher_eq:
  "newFetcher refUrl (Some rc) st =
     Ok \<lparr>f_urlHash = [], f_urlRewrittenCount = 0, f_recurseChain = arrayCount st\<rparr>
        (st\<lparr>arrays := (arrays st)
              (arrayCount st :=
                 arrays st rc @ (if refUrl \<noteq> [] then [fst (splitUrlByAnchor refUrl)] else [])),
            arrayCount := Suc (arrayCount st)\<rparr>)"
  by (simp add: newFetcher_def jsonCopy_def newArray_def push_def monad_defs)

lemma splitUrlByAnchor_no_hash: "35 \<notin> set u \<Longrightarrow> splitUrlByAnchor u = (u, [])"
  by (auto simp: splitUrlByAnchor_def takeWhile_eq_all_conv dropWhile_eq_Nil_conv)

lemma js_join_no_hash:
  "\<forall>s \<in> set segs. 35 \<notin> set s \<Longrightarrow> 35 \<notin> set (js_join [47] segs)"
  by (induction "[47::nat]" segs rule: js_join.induct) auto

lemma hexDigit_not_hash: "hexDigit d \<noteq> 35"
  by (simp add: hexDigit_def)

lemma escaped_no_hash: "35 \<notin> set (concat (map pctByte (utf8 c)))"
  by (simp add: utf8_def pctByte_def hexDigit_not_hash)

lemma encode_no_hash: "encodeURIComponent s = Inr e \<Longrightarrow> 35 \<notin> set e"
proof (induction s arbitrary: e)
  case Nil
  then show ?case by simp
next
  case (Cons c cs)
  then show ?case
    using escaped_no_hash [of c]
    by (auto split: if_splits sum.splits simp: uriUnreserved_def)
qed

lemma mapE_no_hash:
  "mapE encodeURIComponent xs = Inr ys \<Longrightarrow> \<forall>s \<in> set ys. 35 \<notin> set s"
  by (induction xs arbitrary: ys) (auto split: sum.splits dest: encode_no_hash)

text \<open>A virtual URL made by \<open>inZipPathToUrl\<close> has no fragment and is not empty.\<close>

lemma inZipPathToUrl_no_hash:
  assumes "inZipPathToUrl vb p = Inr u" and "35 \<notin> set vb" and "vb \<noteq> []"
  shows "35 \<notin> set u \<and> u \<noteq> []"
proof -
  obtain segs where segs: "mapE encodeURIComponent (js_split 47 (case p of None \<Rightarrow> [] | Some p \<Rightarrow> p)) = Inr segs"
    and u: "u = vb @ js_join [47] segs"
    using assms(1) by (auto simp: inZipPathToUrl_def split: sum.splits)
  have "35 \<notin> set (js_join [47] segs)"
    using js_join_no_hash [OF mapE_no_hash [OF segs]] .
  then show ?thesis using u assms(2,3) by simp
qed

text \<open>
  C7. A child chain is a new array. Where \<open>rewriteNode\<close> makes one for a meta refresh
  or a frame (\<open>childChain\<close>), and where the constructor of \<open>ComplexUrlFetcher\<close> makes
  one for a reference URL that \<open>inZipPathToUrl\<close> has made, the new array holds the
  parent chain followed by the reference URL, its address is not the parent's, and
  every array that existed before, the parent chain among them, holds what it held.
\<close>

theorem child_chain_is_a_copy:
  assumes parent: "rc < arrayCount st"
    and ref: "inZipPathToUrl (virtualBase E) p = Inr refUrl"
    and vb: "35 \<notin> set (virtualBase E)" "virtualBase E \<noteq> []"
  shows "(\<exists>c st'. childChain rc refUrl st = Ok c st' \<and> c \<noteq> rc \<and>
            arrays st' c = arrays st rc @ [refUrl] \<and>
            (\<forall>a. a \<noteq> c \<longrightarrow> arrays st' a = arrays st a)) \<and>
         (\<exists>F st'. newFetcher refUrl (Some rc) st = Ok F st' \<and> f_recurseChain F \<noteq> rc \<and>
            arrays st' (f_recurseChain F) = arrays st rc @ [refUrl] \<and>
            (\<forall>a. a \<noteq> f_recurseChain F \<longrightarrow> arrays st' a = arrays st a))"
proof -
  have "35 \<notin> set refUrl" "refUrl \<noteq> []"
    using inZipPathToUrl_no_hash [OF ref vb] by simp_all
  then have "fst (splitUrlByAnchor refUrl) = refUrl" "refUrl \<noteq> []"
    by (simp_all add: splitUrlByAnchor_no_hash)
  then show ?thesis
    using parent by (simp add: childChain_eq newFetcher_eq)
qed

theorem child_chain_is_a_copy_witness:
  "(0::nat) < arrayCount exampleState \<and>
   inZipPathToUrl (virtualBase exampleEnv) (Some (lit ''index.html'')) =
     Inr (lit ''chrome-extension://abc/viewer/!/index.html'') \<and>
   35 \<notin> set (virtualBase exampleEnv) \<and> virtualBase exampleEnv \<noteq> [] \<and>
   (\<exists>c st'. childChain 0 (lit ''chrome-extension://abc/viewer/!/index.html'') exampleState = Ok c st' \<and>
      c \<noteq> 0 \<and> arrays st' c = [lit ''chrome-extension://abc/viewer/!/index.html''] \<and>
      arrays st' 0 = []) \<and>
   (\<exists>F st'. newFetcher (lit ''chrome-extension://abc/viewer/!/index.html'') (Some 0) exampleState = Ok F st' \<and>
      f_recurseChain F \<noteq> 0 \<and>
      arrays st' (f_recurseChain F) = [lit ''chrome-extension://abc/viewer/!/index.html''] \<and>
      arrays st' 0 = [])"
proof -
  have h1: "(0::nat) < arrayCount exampleState" by (simp add: exampleState_sel)
  have h2: "inZipPathToUrl (virtualBase exampleEnv) (Some (lit ''index.html'')) =
     Inr (lit ''chrome-extension://abc/viewer/!/index.html'')"
    by (simp add: exampleEnv_sel ex_index_url)
  have h3: "35 \<notin> set (virtualBase exampleEnv)" "virtualBase exampleEnv \<noteq> []"
    by (simp_all add: exampleEnv_sel lit_simps)
  note t = child_chain_is_a_copy [OF h1 h2 h3]
  from t [THEN conjunct1] obtain c st1 where
    c: "childChain 0 (lit ''chrome-extension://abc/viewer/!/index.html'') exampleState = Ok c st1"
      "c \<noteq> 0" "arrays st1 c = arrays exampleState 0 @ [lit ''chrome-extension://abc/viewer/!/index.html'']"
      "\<forall>a. a \<noteq> c \<longrightarrow> arrays st1 a = arrays exampleState a"
    by blast
  from t [THEN conjunct2] obtain F st2 where
    F: "newFetcher (lit ''chrome-extension://abc/viewer/!/index.html'') (Some 0) exampleState = Ok F st2"
      "f_recurseChain F \<noteq> 0"
      "arrays st2 (f_recurseChain F) = arrays exampleState 0 @ [lit ''chrome-extension://abc/viewer/!/index.html'']"
      "\<forall>a. a \<noteq> f_recurseChain F \<longrightarrow> arrays st2 a = arrays exampleState a"
    by blast
  have "arrays st1 0 = []" "arrays st1 c = [lit ''chrome-extension://abc/viewer/!/index.html'']"
    using c by (simp_all add: exampleState_sel)
  moreover have "arrays st2 0 = []"
    "arrays st2 (f_recurseChain F) = [lit ''chrome-extension://abc/viewer/!/index.html'']"
    using F by (simp_all add: exampleState_sel)
  ultimately show ?thesis
    using h1 h2 h3 c(1,2) F(1,2) by blast
qed

subsection \<open>PathCodec and the URL parser: the round trip\<close>

















text \<open>
  Why a valid path has no dot segment: the parser reads the virtual URL of
  \<open>a/../b.html\<close> as the one of \<open>b.html\<close>.
\<close>

lemma dot_segments_resolved:
  "resolveDotSegments (lit ''chrome-extension://abc/viewer/!/a/../b.html'') =
     lit ''chrome-extension://abc/viewer/!/b.html''"
  by code_simp



subsection \<open>DocumentRewriter: meta refresh\<close>

lemma lit_neq:
  "lit ''content'' \<noteq> lit ''style''" "lit ''src'' \<noteq> lit ''style''"
  "lit ''meta'' \<noteq> lit ''link''"
  by (simp_all add: lit_simps)

lemma styleAttrTasks_setAttribute:
  "a \<noteq> lit ''style'' \<Longrightarrow>
     styleAttrTasks E pcf refUrl rc (setAttribute elem a v) = styleAttrTasks E pcf refUrl rc elem"
  by (simp add: styleAttrTasks_def getAttribute_setAttribute_other)

lemma rewriteByName_meta:
  "toLowerCase E (nodeName elem) = lit ''meta'' \<Longrightarrow>
     rewriteByName E fp pcf inZipPath refUrl rc elem = rewriteMeta E fp refUrl rc elem"
  by (simp add: rewriteByName_def Let_def)

lemma rewriteMeta_refresh:
  "getAttribute elem (lit ''http-equiv'') = Some h \<Longrightarrow> toLowerCase E h = lit ''refresh'' \<Longrightarrow>
   getAttribute elem (lit ''content'') = Some c \<Longrightarrow>
     rewriteMeta E fp refUrl rc elem = rewriteMetaRefresh E fp refUrl rc elem c"
  by (simp add: rewriteMeta_def Let_def)

lemma startsWith_takeWhile:
  assumes "startsWith x vb" and "takeWhile P u = x"
  shows "startsWith u vb"
proof -
  have "take (length vb) x = vb" using assms(1) by (simp add: startsWith_def)
  moreover have "u = x @ dropWhile P u" using assms(2) by (metis takeWhile_dropWhile_id)
  moreover have "length vb \<le> length x"
    using calculation(1) by (metis length_take min.cobounded2 min.commute)
  ultimately have "take (length vb) u = vb"
    by (metis append_eq_conv_conj take_all_iff take_append diff_is_0_eq' take0 append_Nil2)
  then show ?thesis by (simp add: startsWith_def)
qed

lemma inZipPathToUrl_startsWith:
  "inZipPathToUrl vb p = Inr u \<Longrightarrow> startsWith u vb"
  by (auto simp: inZipPathToUrl_def startsWith_def split: sum.splits)

lemma parseUrl_external:
  "newURL E url (Some refUrl) = Some a \<Longrightarrow> refUrl \<noteq> [] \<Longrightarrow> \<not> startsWith (href a) (virtualBase E) \<Longrightarrow>
     parseUrl E st url refUrl = notInZip (href a)"
  by (simp add: parseUrl_def)

lemma redirectNotice_link:
  \<open>\<exists>pre post.
     redirectNotice E u =
       pre @ lit ''<a href="'' @ escapeHtml E u False @ lit ''">'' @ escapeHtml E u True @
       lit ''</a>'' @ post\<close>
proof -
  have \<open>redirectNotice E u =
      (lit ''<!DOCTYPE html>'' @ [10] @
       lit ''<html '' @ metaRefreshIdentifier E @ lit ''="1">'' @ [10] @
       lit ''<head>'' @ [10] @
       lit ''<meta charset="UTF-8">'' @ [10] @
       lit ''<meta name="viewport" content="width=device-width,initial-scale=1">'' @ [10] @
       lit ''</head>'' @ [10] @
       lit ''<body>'' @ [10] @
       lit ''Redirecting to: '') @ lit ''<a href="'' @ escapeHtml E u False @ lit ''">'' @
       escapeHtml E u True @ lit ''</a>'' @ ([10] @ lit ''</body>'' @ [10] @ lit ''</html>'' @ [10])\<close>
    by (simp add: redirectNotice_def lit_def)
  then show ?thesis by blast
qed


text \<open>
  What \<open>rewriteNode\<close> does with a meta refresh, by its own tests. A \<open>meta\<close> element outside \<open>svg\<close> and \<open>math\<close> with \<open>http-equiv\<close> \<open>refresh\<close>, whose
  \<open>content\<close> has the delay \<open>time\<close> and a target URL, in the document whose virtual URL
  is \<open>refUrl\<close>; \<open>targetPage\<close> and \<open>targetPageHash\<close> are the resolved target without its
  fragment, and its fragment.
  \<^item> The resolved target without its fragment is \<open>refUrl\<close>: \<open>content\<close> becomes the delay, followed by
    \<open>;url=\<close> and the fragment when there is one; no task is started for it.
  \<^item> It is not \<open>refUrl\<close>, is in the archive and is not in the recursion chain:
    \<open>rewriteNode\<close> starts a task that calls \<open>fetchPage\<close> for the target with the
    chain followed by \<open>refUrl\<close>, and sets \<open>content\<close> to the delay, \<open>;url=\<close> and the
    locator that \<open>fetchPage\<close> returns.
  \<^item> The target is outside the virtual base, and the chain holds virtual URLs:
    \<open>content\<close> becomes the delay, \<open>;url=\<close>, a new object URL and the fragment of the
    target; the object URL stands for the redirect notice, an HTML page that links to
    the target URL.
\<close>

lemma meta_refresh_rewritten:
  assumes meta: "toLowerCase E (nodeName elem) = lit ''meta''"
      "rootName \<noteq> lit ''svg''" "rootName \<noteq> lit ''math''"
    and he: "getAttribute elem (lit ''http-equiv'') = Some h" "toLowerCase E h = lit ''refresh''"
    and content: "getAttribute elem (lit ''content'') = Some c"
      "parseHeaderRefresh E c = (time, metaUrl)" "metaUrl \<noteq> []"
    and ref: "inZipPathToUrl (virtualBase E) inZipPath = Inr refUrl"
      "35 \<notin> set (virtualBase E)" "virtualBase E \<noteq> []"
    and target:
      "splitUrlByAnchor (orElse (info_virtualUrl (parseUrl E st metaUrl refUrl))
                           (info_url (parseUrl E st metaUrl refUrl))) = (targetPage, targetPageHash)"
  shows
    "(targetPage = refUrl \<longrightarrow>
        rewriteNode E fetchPage' processCssFile' inZipPath refUrl recurseChain elem rootName st =
          Ok (setAttribute elem (lit ''content'')
                (time @ (if targetPageHash \<noteq> [] then lit '';url='' @ targetPageHash else [])),
              styleAttrTasks E processCssFile' refUrl recurseChain elem) st) \<and>
     (targetPage \<noteq> refUrl \<and> targetPage \<notin> set (arrays st recurseChain) \<and>
      info_inZip (parseUrl E st metaUrl refUrl) \<longrightarrow>
        (\<exists>t st1.
           rewriteNode E fetchPage' processCssFile' inZipPath refUrl recurseChain elem rootName st =
             Ok (elem, t # styleAttrTasks E processCssFile' refUrl recurseChain elem) st1 \<and>
           arrays st1 (arrayCount st) = arrays st recurseChain @ [refUrl] \<and>
           (\<forall>s. t s =
              (case fetchPage' (info_inZipPath (parseUrl E st metaUrl refUrl))
                      (info_url (parseUrl E st metaUrl refUrl)) (arrayCount st) s of
                 OutOfFuel \<Rightarrow> OutOfFuel
               | Raise e s' \<Rightarrow> Raise e s'
               | Ok fetchedUrl s' \<Rightarrow>
                   Ok (\<lambda>e. setAttribute e (lit ''content'')
                              (time @ lit '';url='' @
                               orElse fetchedUrl (info_url (parseUrl E st metaUrl refUrl)))) s')))) \<and>
     (\<forall>a. newURL E metaUrl (Some refUrl) = Some a \<and> \<not> startsWith (href a) (virtualBase E) \<and>
          (\<forall>x \<in> set (arrays st recurseChain). startsWith x (virtualBase E)) \<longrightarrow>
        rewriteNode E fetchPage' processCssFile' inZipPath refUrl recurseChain elem rootName st =
          Ok (setAttribute elem (lit ''content'')
                (time @ lit '';url='' @ objectUrlName E (length (objectStore st)) @ targetPageHash),
              styleAttrTasks E processCssFile' refUrl recurseChain elem)
             (st\<lparr>objectStore :=
                   objectStore st @
                   [(objectUrlName E (length (objectStore st)),
                     \<lparr>blobType = lit ''text/html'', blobData = redirectNotice E (href a)\<rparr>)]\<rparr>) \<and>
        targetPageHash = snd (splitUrlByAnchor (href a)))"
proof -
  let ?info = "parseUrl E st metaUrl refUrl"
  have nohash: "35 \<notin> set refUrl" and ne: "refUrl \<noteq> []"
    using inZipPathToUrl_no_hash [OF ref] by simp_all
  have sp: "fst (splitUrlByAnchor refUrl) = refUrl"
    using nohash by (simp add: splitUrlByAnchor_no_hash)
  have node: "rewriteNode E fetchPage' processCssFile' inZipPath refUrl recurseChain elem rootName =
      bindM (rewriteMetaRefresh E fetchPage' refUrl recurseChain elem c)
        (\<lambda>(elem1, tasks).
           returnM (elem1, tasks @ styleAttrTasks E processCssFile' refUrl recurseChain elem1))"
    using meta he content
    by (simp add: rewriteNode_def rewriteByName_meta rewriteMeta_refresh)
  have same: "targetPage = refUrl \<Longrightarrow>
      rewriteNode E fetchPage' processCssFile' inZipPath refUrl recurseChain elem rootName st =
        Ok (setAttribute elem (lit ''content'')
              (time @ (if targetPageHash \<noteq> [] then lit '';url='' @ targetPageHash else [])),
            styleAttrTasks E processCssFile' refUrl recurseChain elem) st"
    using content target sp
    by (simp add: node rewriteMetaRefresh_def monad_defs Let_def styleAttrTasks_setAttribute lit_neq)
  have cross: "targetPage \<noteq> refUrl \<Longrightarrow> targetPage \<notin> set (arrays st recurseChain) \<Longrightarrow>
      info_inZip ?info \<Longrightarrow>
      \<exists>t st1.
         rewriteNode E fetchPage' processCssFile' inZipPath refUrl recurseChain elem rootName st =
           Ok (elem, t # styleAttrTasks E processCssFile' refUrl recurseChain elem) st1 \<and>
         arrays st1 (arrayCount st) = arrays st recurseChain @ [refUrl] \<and>
         (\<forall>s. t s =
            (case fetchPage' (info_inZipPath ?info) (info_url ?info) (arrayCount st) s of
               OutOfFuel \<Rightarrow> OutOfFuel
             | Raise e s' \<Rightarrow> Raise e s'
             | Ok fetchedUrl s' \<Rightarrow>
                 Ok (\<lambda>e. setAttribute e (lit ''content'')
                            (time @ lit '';url='' @ orElse fetchedUrl (info_url ?info))) s'))"
    using content target sp
    by (simp add: node rewriteMetaRefresh_def bindM_def returnM_def getState_def Let_def
        arrayIncludes_def childChain_eq)
  have ext: "rewriteNode E fetchPage' processCssFile' inZipPath refUrl recurseChain elem rootName st =
        Ok (setAttribute elem (lit ''content'')
              (time @ lit '';url='' @ objectUrlName E (length (objectStore st)) @ targetPageHash),
            styleAttrTasks E processCssFile' refUrl recurseChain elem)
           (st\<lparr>objectStore :=
                 objectStore st @
                 [(objectUrlName E (length (objectStore st)),
                   \<lparr>blobType = lit ''text/html'', blobData = redirectNotice E (href a)\<rparr>)]\<rparr>) \<and>
      targetPageHash = snd (splitUrlByAnchor (href a))"
    if a: "newURL E metaUrl (Some refUrl) = Some a" "\<not> startsWith (href a) (virtualBase E)"
      and chain: "\<forall>x \<in> set (arrays st recurseChain). startsWith x (virtualBase E)" for a
  proof -
    have info: "?info = notInZip (href a)"
      using parseUrl_external [OF a(1) ne a(2)] .
    have tp: "targetPage = takeWhile (\<lambda>c. c \<noteq> 35) (href a)"
      and th: "targetPageHash = snd (splitUrlByAnchor (href a))"
      using target by (auto simp: info notInZip_def orElse_def splitUrlByAnchor_def)
    have "startsWith refUrl (virtualBase E)"
      using inZipPathToUrl_startsWith [OF ref(1)] .
    then have d1: "targetPage \<noteq> refUrl"
      using startsWith_takeWhile [OF _ tp [symmetric]] a(2) by blast
    have d2: "targetPage \<notin> set (arrays st recurseChain)"
      using startsWith_takeWhile [OF _ tp [symmetric]] a(2) chain by blast
    have "rewriteMetaRefresh E fetchPage' refUrl recurseChain elem c st =
        Ok (setAttribute elem (lit ''content'')
              (time @ lit '';url='' @ objectUrlName E (length (objectStore st)) @ targetPageHash), [])
           (st\<lparr>objectStore :=
                 objectStore st @
                 [(objectUrlName E (length (objectStore st)),
                   \<lparr>blobType = lit ''text/html'', blobData = redirectNotice E (href a)\<rparr>)]\<rparr>)"
      using content target sp d1 d2
      by (simp add: rewriteMetaRefresh_def bindM_def returnM_def getState_def Let_def
          arrayIncludes_def createObjectURL_eq)
         (simp add: info notInZip_def)
    then show ?thesis
      using th by (simp add: node bindM_def returnM_def styleAttrTasks_setAttribute lit_neq)
  qed
  show ?thesis using same cross ext by blast
qed




text \<open>The archive whose page refreshes to itself.\<close>

lemma refreshEnv_sel:
  "virtualBase refreshEnv = lit ''chrome-extension://abc/viewer/!/''"
  "newURL refreshEnv = exampleNewURL"
  "toLowerCase refreshEnv = map asciiLower"
  "readFileAsDocument refreshEnv = (\<lambda>b. if blobData b = lit ''R'' then Some refreshPage else None)"
  "parseHeaderRefresh refreshEnv =
     (\<lambda>c. (takeWhile (\<lambda>x. x \<noteq> 59) c, drop 5 (dropWhile (\<lambda>x. x \<noteq> 59) c)))"
  by (simp_all add: refreshEnv_def exampleEnv_def)

lemma refresh_url:
  "inZipPathToUrl (virtualBase refreshEnv) (Some (lit ''a+b.html'')) =
     Inr (lit ''chrome-extension://abc/viewer/!/a%2Bb.html'')"
  by (simp add: refreshEnv_sel inZipPathToUrl_def uriUnreserved_def isScalar_def utf8_def
      pctByte_def hexDigit_def lit_simps)

lemma refresh_parse:
  assumes "inZipFiles s = inZipFiles refreshState"
  shows "parseUrl refreshEnv s (lit ''a+b.html#x'') (lit ''chrome-extension://abc/viewer/!/a%2Bb.html'') =
   \<lparr>info_url = lit ''blob:x#x'',
    info_virtualUrl = Some (lit ''chrome-extension://abc/viewer/!/a+b.html#x''),
    info_inZip = True,
    info_inZipPath = Some (lit ''a+b.html''),
    info_mime = Some (lit ''text/html''),
    info_search = Some [],
    info_hash = Some (lit ''#x'')\<rparr>"
proof -
  have n: "exampleNewURL (lit ''a+b.html#x'')
             (Some (lit ''chrome-extension://abc/viewer/!/a%2Bb.html'')) =
           Some \<lparr>urlMain = lit ''chrome-extension://abc/viewer/!/a+b.html'',
                 urlQuery = None, urlFragment = Some (lit ''x'')\<rparr>"
    by (simp add: exampleNewURL_def lit_simps splitUrl_def splitUrlByAnchor_def dirOf_def)
  have d: "hrefToInZipPath (lit ''chrome-extension://abc/viewer/!/'')
             (lit ''chrome-extension://abc/viewer/!/a+b.html'') = lit ''a+b.html''"
    by (simp add: hrefToInZipPath_def lit_simps escapedAt_def)
  have ne: "lit ''chrome-extension://abc/viewer/!/a%2Bb.html'' \<noteq> []"
    by (simp add: lit_simps)
  have sw: "startsWith (lit ''chrome-extension://abc/viewer/!/a+b.html'' @ 35 # lit ''x'')
              (lit ''chrome-extension://abc/viewer/!/'')"
    by (simp add: startsWith_def lit_simps)
  show ?thesis
    by (simp add: parseUrl_def refreshEnv_sel assms refreshState_def n ne href_def sw d
        url_search_def url_hash_def Let_def)
       (simp add: lit_simps)
qed

lemma refresh_meta_node:
  assumes store: "inZipFiles s = inZipFiles refreshState"
    and chain: "lit ''chrome-extension://abc/viewer/!/a+b.html'' \<notin> set (arrays s c)"
  shows "rewriteNode refreshEnv fp pcf (Some (lit ''a+b.html''))
           (lit ''chrome-extension://abc/viewer/!/a%2Bb.html'') c refreshMeta (lit ''html'') s =
         Ok (refreshMeta,
             [bindM (fp (Some (lit ''a+b.html'')) (lit ''blob:x#x'') (arrayCount s))
                (\<lambda>fetchedUrl.
                   returnM (\<lambda>e. setAttribute e (lit ''content'')
                                  (lit ''0'' @ lit '';url='' @ orElse fetchedUrl (lit ''blob:x#x''))))])
            (s\<lparr>arrays := (arrays s)
                  (arrayCount s := arrays s c @ [lit ''chrome-extension://abc/viewer/!/a%2Bb.html'']),
               arrayCount := Suc (arrayCount s)\<rparr>)"
proof -
  have name: "toLowerCase refreshEnv (nodeName refreshMeta) = lit ''meta''"
    by (simp add: refreshEnv_sel refreshMeta_def lit_simps asciiLower_def)
  have he: "getAttribute refreshMeta (lit ''http-equiv'') = Some (lit ''refresh'')"
    "toLowerCase refreshEnv (lit ''refresh'') = lit ''refresh''"
    "getAttribute refreshMeta (lit ''content'') = Some (lit ''0;url=a+b.html#x'')"
    "getAttribute refreshMeta (lit ''style'') = None"
    by (simp_all add: refreshEnv_sel refreshMeta_def lit_simps asciiLower_def)
  have hr: "parseHeaderRefresh refreshEnv (lit ''0;url=a+b.html#x'') = (lit ''0'', lit ''a+b.html#x'')"
    by (simp add: refreshEnv_sel lit_simps)
  have sp: "splitUrlByAnchor (lit ''chrome-extension://abc/viewer/!/a+b.html#x'') =
      (lit ''chrome-extension://abc/viewer/!/a+b.html'', lit ''#x'')"
    "splitUrlByAnchor (lit ''chrome-extension://abc/viewer/!/a%2Bb.html'') =
      (lit ''chrome-extension://abc/viewer/!/a%2Bb.html'', [])"
    by (simp_all add: splitUrlByAnchor_def lit_simps)
  have ne: "lit ''chrome-extension://abc/viewer/!/a+b.html'' \<noteq>
      lit ''chrome-extension://abc/viewer/!/a%2Bb.html''"
    "lit ''a+b.html#x'' \<noteq> []" "lit ''html'' \<noteq> lit ''svg''" "lit ''html'' \<noteq> lit ''math''"
    "lit ''chrome-extension://abc/viewer/!/a+b.html#x'' \<noteq> []"
    by (simp_all add: lit_simps)
  have meta: "rewriteMetaRefresh refreshEnv fp (lit ''chrome-extension://abc/viewer/!/a%2Bb.html'') c
      refreshMeta (lit ''0;url=a+b.html#x'') s =
         Ok (refreshMeta,
             [bindM (fp (Some (lit ''a+b.html'')) (lit ''blob:x#x'') (arrayCount s))
                (\<lambda>fetchedUrl.
                   returnM (\<lambda>e. setAttribute e (lit ''content'')
                                  (lit ''0'' @ lit '';url='' @ orElse fetchedUrl (lit ''blob:x#x''))))])
            (s\<lparr>arrays := (arrays s)
                  (arrayCount s := arrays s c @ [lit ''chrome-extension://abc/viewer/!/a%2Bb.html'']),
               arrayCount := Suc (arrayCount s)\<rparr>)"
    using chain
    by (simp add: rewriteMetaRefresh_def hr ne bindM_def getState_def returnM_def
        refresh_parse [OF store] orElse_def sp arrayIncludes_def childChain_eq Let_def)
  show ?thesis
    using ne(3,4)
    by (simp add: rewriteNode_def rewriteByName_meta [OF name]
        rewriteMeta_refresh [OF he(1,2,3)] meta bindM_def returnM_def
        styleAttrTasks_def he(4))
qed

lemma refresh_plain_node:
  assumes "n = lit ''html'' \<or> n = lit ''head''"
  shows "rewriteNode refreshEnv fp pcf q ref c (Element n [] cs) (lit ''html'') s =
           Ok (Element n [] cs, []) s"
  using assms
  by (auto simp: rewriteNode_def rewriteByName_def refreshEnv_sel lit_simps asciiLower_def
      styleAttrTasks_def bindM_def returnM_def Let_def)

lemma refresh_walk:
  assumes store: "inZipFiles s = inZipFiles refreshState"
    and chain: "lit ''chrome-extension://abc/viewer/!/a+b.html'' \<notin> set (arrays s c)"
    and fetch: "fp (Some (lit ''a+b.html'')) (lit ''blob:x#x'') (arrayCount s)
           (s\<lparr>arrays := (arrays s)
                  (arrayCount s := arrays s c @ [lit ''chrome-extension://abc/viewer/!/a%2Bb.html'']),
               arrayCount := Suc (arrayCount s)\<rparr>) = OutOfFuel"
  shows "parseDocument refreshEnv fp pcf refreshPage (Some (lit ''a+b.html'')) c s = OutOfFuel"
proof -
  let ?cb = "rewriteNode refreshEnv fp pcf (Some (lit ''a+b.html''))
               (lit ''chrome-extension://abc/viewer/!/a%2Bb.html'') c"
  have low: "toLowerCase refreshEnv (lit ''html'') = lit ''html''"
    "toLowerCase refreshEnv (lit ''head'') = lit ''head''"
    "toLowerCase refreshEnv (lit ''meta'') = lit ''meta''"
    by (simp_all add: refreshEnv_sel lit_simps asciiLower_def)
  have ne: "lit ''html'' \<notin> {lit ''svg'', lit ''math''}" "lit ''head'' \<notin> {lit ''svg'', lit ''math''}"
    "lit ''meta'' \<notin> {lit ''svg'', lit ''math''}"
    by (simp_all add: lit_simps)
  have m: "rewriteRecursively refreshEnv ?cb refreshMeta (lit ''html'') s = OutOfFuel"
    using refresh_meta_node [OF store chain, of fp pcf] fetch low(3) ne(3)
    by (simp add: refreshMeta_def bindM_def returnM_def Let_def)
  have h: "rewriteRecursively refreshEnv ?cb (Element (lit ''head'') [] [refreshMeta]) (lit ''html'') s =
      OutOfFuel"
    using refresh_plain_node [of "lit ''head''" fp pcf] m low(2) ne(2)
    by (simp add: bindM_def returnM_def Let_def)
  have r: "rewriteRecursively refreshEnv ?cb
             (Element (lit ''html'') [] [Element (lit ''head'') [] [refreshMeta]]) (lit ''html'') s =
      OutOfFuel"
    using refresh_plain_node [of "lit ''html''" fp pcf] h low(1) ne(1)
    by (simp add: bindM_def returnM_def Let_def)
  show ?thesis
    using r low(1)
    by (simp add: parseDocument_def refresh_url liftE_def bindM_def returnM_def refreshPage_def
        Let_def)
qed

lemma refresh_loop:
  assumes store: "inZipFiles s = inZipFiles refreshState"
    and chain: "lit ''chrome-extension://abc/viewer/!/a+b.html'' \<notin> set (arrays s c)"
  shows "viewer_fetchPage refreshEnv n (Some (lit ''a+b.html'')) url c s = OutOfFuel"
  using assms
proof (induction n arbitrary: s c url)
  case 0
  show ?case by simp
next
  case (Suc n)
  let ?s' = "s\<lparr>arrays := (arrays s)
                  (arrayCount s := arrays s c @ [lit ''chrome-extension://abc/viewer/!/a%2Bb.html'']),
               arrayCount := Suc (arrayCount s)\<rparr>"
  have "inZipFiles ?s' = inZipFiles refreshState" using Suc.prems(1) by simp
  moreover have "lit ''chrome-extension://abc/viewer/!/a+b.html'' \<notin> set (arrays ?s' (arrayCount s))"
    using Suc.prems(2) by (simp add: lit_simps)
  ultimately have "viewer_fetchPage refreshEnv n (Some (lit ''a+b.html'')) (lit ''blob:x#x'')
      (arrayCount s) ?s' = OutOfFuel"
    by (rule Suc.IH)
  then have pd: "parseDocument refreshEnv (viewer_fetchPage refreshEnv n)
      (viewer_processCssFile refreshEnv n) refreshPage (Some (lit ''a+b.html'')) c s = OutOfFuel"
    by (rule refresh_walk [OF Suc.prems])
  have lk: "inZipFiles s (lit ''a+b.html'') =
      Some \<lparr>entryFile = \<lparr>blobType = lit ''text/html'', blobData = lit ''R''\<rparr>,
            entryUrl = lit ''blob:x''\<rparr>"
    using Suc.prems(1) by (simp add: refreshState_def)
  have doc: "readFileAsDocument refreshEnv \<lparr>blobType = lit ''text/html'', blobData = lit ''R''\<rparr> =
      Some refreshPage"
    by (simp add: refreshEnv_sel)
  show ?case
    by (simp add: fetchPage_def fetchFile_def pageRewriteFunc_def lk refresh_url doc
        pd bindM_def getState_def liftE_def returnM_def catchM_def Let_def)
qed

text \<open>
  C6 (the code departs from the claim). The page \<open>a+b.html\<close> holds
  \<open><meta http-equiv="refresh" content="0;url=a+b.html#x">\<close>, a refresh to itself.
  \<open>inZipPathToUrl\<close> escapes the plus sign in the virtual URL of the page, the URL parser
  leaves the plus sign of the target as it is, and \<open>parseUrl\<close> finds the page's own path
  for the target. \<open>rewriteNode\<close> compares the two URLs as strings: it takes the target
  for another page, which is not in the chain, leaves \<open>content\<close> as it is and starts a
  fetch of the page itself, where the same happens again: at no depth does the fetch
  end. The rule for frames looks up \<open>inZipPathToUrl(info.inZipPath)\<close> in the chain and the
  rule for links compares \<open>info.inZipPath\<close> with the path of the page; the rule for the
  meta refresh does neither.
\<close>

theorem self_refresh_is_fetched:
  "inZipPathToUrl (virtualBase refreshEnv) (Some (lit ''a+b.html'')) =
     Inr (lit ''chrome-extension://abc/viewer/!/a%2Bb.html'') \<and>
   info_inZipPath (parseUrl refreshEnv refreshState (lit ''a+b.html#x'')
                     (lit ''chrome-extension://abc/viewer/!/a%2Bb.html'')) =
     Some (lit ''a+b.html'') \<and>
   (\<forall>n. \<exists>t st1.
      rewriteNode refreshEnv (viewer_fetchPage refreshEnv n) (viewer_processCssFile refreshEnv n)
        (Some (lit ''a+b.html'')) (lit ''chrome-extension://abc/viewer/!/a%2Bb.html'') 0
        refreshMeta (lit ''html'') refreshState = Ok (refreshMeta, [t]) st1 \<and>
      t st1 = OutOfFuel) \<and>
   (\<forall>n. viewer_fetchPage refreshEnv n (Some (lit ''a+b.html'')) (lit ''blob:x'') 0 refreshState =
          OutOfFuel)"
proof -
  let ?plus = "lit ''chrome-extension://abc/viewer/!/a+b.html''"
  let ?ref = "lit ''chrome-extension://abc/viewer/!/a%2Bb.html''"
  let ?st1 = "refreshState\<lparr>arrays := (arrays refreshState)
                  (arrayCount refreshState := arrays refreshState 0 @ [?ref]),
               arrayCount := Suc (arrayCount refreshState)\<rparr>"
  have chain0: "?plus \<notin> set (arrays refreshState 0)"
    by (simp add: refreshState_def)
  have chain1: "?plus \<notin> set (arrays ?st1 (arrayCount refreshState))"
    by (simp add: refreshState_def lit_simps)
  have store1: "inZipFiles ?st1 = inZipFiles refreshState" by simp
  have c2: "info_inZipPath (parseUrl refreshEnv refreshState (lit ''a+b.html#x'') ?ref) =
      Some (lit ''a+b.html'')"
    by (simp add: refresh_parse [OF refl])
  have c3: "\<exists>t st1.
      rewriteNode refreshEnv (viewer_fetchPage refreshEnv n) (viewer_processCssFile refreshEnv n)
        (Some (lit ''a+b.html'')) ?ref 0 refreshMeta (lit ''html'') refreshState =
        Ok (refreshMeta, [t]) st1 \<and>
      t st1 = OutOfFuel" for n
  proof -
    let ?t = "bindM (viewer_fetchPage refreshEnv n (Some (lit ''a+b.html'')) (lit ''blob:x#x'')
                       (arrayCount refreshState))
                (\<lambda>fetchedUrl.
                   returnM (\<lambda>e. setAttribute e (lit ''content'')
                                  (lit ''0'' @ lit '';url='' @ orElse fetchedUrl (lit ''blob:x#x''))))"
    have "rewriteNode refreshEnv (viewer_fetchPage refreshEnv n) (viewer_processCssFile refreshEnv n)
        (Some (lit ''a+b.html'')) ?ref 0 refreshMeta (lit ''html'') refreshState =
        Ok (refreshMeta, [?t]) ?st1"
      using refresh_meta_node [OF refl chain0] .
    moreover have "?t ?st1 = OutOfFuel"
      using refresh_loop [OF store1 chain1, of n "lit ''blob:x#x''"] by (simp add: bindM_def)
    ultimately show ?thesis by blast
  qed
  have c4: "viewer_fetchPage refreshEnv n (Some (lit ''a+b.html'')) (lit ''blob:x'') 0 refreshState =
      OutOfFuel" for n
    using refresh_loop [OF refl chain0] .
  show ?thesis using refresh_url c2 c3 c4 by blast
qed

subsection \<open>StylesheetRewriter\<close>

text \<open>
  A reference whose target is in the chain: the task returns \<open>about:blank\<close> and leaves
  \<open>newUrl\<close> of the entry as it was.
\<close>

lemma startFetch_circular:
  assumes "map_of (f_urlHash F) key = Some entry"
    and "info_inZip (parseUrl E st (uh_url entry)
           (if arrays st (f_recurseChain F) = [] then [] else last (arrays st (f_recurseChain F))))"
    and "inZipPathToUrl (virtualBase E)
           (info_inZipPath (parseUrl E st (uh_url entry)
              (if arrays st (f_recurseChain F) = [] then [] else last (arrays st (f_recurseChain F))))) =
         Inr targetUrl"
    and "fst (splitUrlByAnchor targetUrl) \<in> set (arrays st (f_recurseChain F))"
  shows "startFetch E F key st = Ok (lit ''about:blank'', F) st"
  using assms by (simp add: startFetch_def monad_defs Let_def)

lemma finalRewrite_marker:
  assumes "uuidShape key"
  shows "finalRewrite F (lit ''urn:scrapbook:url:'' @ key @ rest) =
           (case map_of (f_urlHash F) key of
              Some entry \<Rightarrow> (case uh_newUrl entry of None \<Rightarrow> lit ''null'' | Some u \<Rightarrow> u)
            | None \<Rightarrow> lit ''urn:scrapbook:url:'' @ key) @ finalRewrite F rest"
proof -
  have len: "length key = 36" using assms by (simp add: uuidShape_def)
  have l18: "length (lit ''urn:scrapbook:url:'') = 18" by (simp add: lit_def)
  obtain c cs where t: "lit ''urn:scrapbook:url:'' = c # cs" by (simp add: lit_simps)
  then have lcs: "length cs = 17" using l18 by simp
  have m: "markerAt (c # cs @ key @ rest)"
    using assms len lcs t l18 by (simp add: markerAt_def startsWith_def)
  have k: "take 36 (drop 18 (c # cs @ key @ rest)) = key"
    using len lcs by simp
  have d: "drop 53 (cs @ key @ rest) = rest"
    using len lcs by simp
  have t54: "take 54 (c # cs @ key @ rest) = c # cs @ key"
    using len lcs by simp
  show ?thesis
    unfolding t using m k d t54
    by (simp add: Let_def split: option.splits)
qed


text \<open>
  C1 (the code departs from the claim). The stylesheet \<open>style.css\<close> of the example
  imports itself and has one external \<open>url()\<close>. \<open>processCssText\<close> replaces both
  placeholders, but the one of the import, whose target is in the chain, is replaced by
  \<open>null\<close> and not by \<open>about:blank\<close>: the task of \<open>startFetches\<close> returns
  \<open>about:blank\<close> without assigning \<open>newUrl\<close>, and \<open>finalRewrite\<close> puts in \<open>newUrl\<close>.
\<close>

theorem cyclic_import_becomes_null:
  \<open>(case processCssText exampleEnv (viewer_processCssFile exampleEnv 3) (lit ''C'')
           (lit ''chrome-extension://abc/viewer/!/style.css'') 0 exampleState of
      Ok text st' \<Rightarrow> Some text
    | Raise e st' \<Rightarrow> None
    | OutOfFuel \<Rightarrow> None) =
   Some (lit ''@import "null"; p { background: url("http://example.com/bg.png"); }'')\<close>
  by code_simp

subsection \<open>DocumentRewriter: frames\<close>

lemma extends_refl: "extends s s"
  by (simp add: extends_def)

lemma extends_trans: "extends s s1 \<Longrightarrow> extends s1 s2 \<Longrightarrow> extends s s2"
  by (auto simp: extends_def)

lemma ends_total: "ends True m s \<Longrightarrow> ends t m s"
  by (auto simp: ends_def split: res.splits)

lemma ends_returnM: "ends t (returnM x) s"
  by (simp add: ends_def returnM_def extends_refl)

lemma ends_throwM: "ends t (throwM e) s"
  by (simp add: ends_def throwM_def extends_refl)

lemma ends_liftE: "ends t (liftE r) s"
  by (cases r) (simp_all add: liftE_def ends_returnM ends_throwM)

lemma ends_bindM:
  assumes "ends t m s" and "\<And>x s'. m s = Ok x s' \<Longrightarrow> extends s s' \<Longrightarrow> ends t (f x) s'"
  shows "ends t (bindM m f) s"
proof (cases "m s")
  case OutOfFuel
  then show ?thesis using assms(1) by (simp add: ends_def bindM_def)
next
  case (Raise e s')
  then show ?thesis using assms(1) by (simp add: ends_def bindM_def)
next
  case (Ok x s')
  then have e: "extends s s'" using assms(1) by (simp add: ends_def)
  from assms(2) [OF Ok e] show ?thesis
    using Ok e by (auto simp: ends_def bindM_def split: res.splits intro: extends_trans)
qed

lemma ends_catchM:
  assumes "ends t m s" and "\<And>e s'. m s = Raise e s' \<Longrightarrow> extends s s' \<Longrightarrow> ends t (h e) s'"
  shows "ends t (catchM m h) s"
proof (cases "m s")
  case OutOfFuel
  then show ?thesis using assms(1) by (simp add: ends_def catchM_def)
next
  case (Raise e s')
  then have e: "extends s s'" using assms(1) by (simp add: ends_def)
  from assms(2) [OF Raise e] show ?thesis
    using Raise e by (auto simp: ends_def catchM_def split: res.splits intro: extends_trans)
next
  case (Ok x s')
  then show ?thesis using assms(1) by (simp add: ends_def catchM_def)
qed

lemma ends_getState: "ends t getState s"
  by (simp add: ends_def getState_def extends_refl)

lemma getState_Ok: "getState s = Ok x s' \<Longrightarrow> x = s \<and> s' = s"
  by (auto simp: getState_def)

lemma ends_createObjectURL: "ends t (createObjectURL E b) s"
  by (simp add: ends_def createObjectURL_eq extends_def)

lemma ends_recordRewritten: "ends t (recordRewritten u p) s"
  by (simp add: ends_def recordRewritten_def extends_def)

lemma ends_childChain: "ends t (childChain rc refUrl) s"
  by (simp add: ends_def childChain_eq extends_def)

lemma ends_update_deApi: "ends t (\<lambda>st. Ok () (st\<lparr>deApiScriptUrl := Some u\<rparr>)) s"
  by (simp add: ends_def extends_def)

lemma ends_insertBeforeHeadFirstChild: "ends t (insertBeforeHeadFirstChild E new root) s"
  by (simp add: insertBeforeHeadFirstChild_def ends_returnM ends_throwM split: option.splits)

lemma ends_insertDeApiScript: "ends t (insertDeApiScript E root) s"
  unfolding insertDeApiScript_def
  by (intro ends_bindM ends_getState ends_insertBeforeHeadFirstChild)
     (auto intro!: ends_bindM ends_returnM ends_createObjectURL ends_update_deApi split: option.splits)


lemma parseUrl_store: "inZipFiles s1 = inZipFiles s \<Longrightarrow> parseUrl E s1 v r = parseUrl E s v r"
  by (simp add: parseUrl_def Let_def cong: option.case_cong if_cong)

lemma parseUrl_notInZip_path:
  "\<not> info_inZip (parseUrl E st v r) \<Longrightarrow> info_inZipPath (parseUrl E st v r) = None"
  by (auto simp: parseUrl_def notInZip_def Let_def split: option.splits if_splits)

text \<open>What \<open>rewriteNode\<close> does for a \<open>frame\<close> or \<open>iframe\<close> with a \<open>src\<close>.\<close>

lemma rewriteFrame_eq:
  assumes "getAttribute elem (lit ''src'') = Some v"
  shows "rewriteFrame E fp refUrl rc elem s =
     (let s1 = s\<lparr>arrays := (arrays s)(arrayCount s := arrays s rc @ [refUrl]),
                 arrayCount := Suc (arrayCount s)\<rparr>;
          info = parseUrl E s v refUrl;
          task = bindM (fp (info_inZipPath info) (info_url info) (arrayCount s))
                   (\<lambda>fetchedUrl.
                      let url = orElse fetchedUrl (info_url info)
                      in returnM (\<lambda>e. setAttribute e (lit ''src'') url))
      in if info_inZip info then
           (case inZipPathToUrl (virtualBase E) (info_inZipPath info) of
              Inl e \<Rightarrow> Raise e s1
            | Inr targetUrl \<Rightarrow>
                if targetUrl \<in> set (arrays s rc @ [refUrl])
                then Ok (setAttribute elem (lit ''src'') (lit ''about:blank''), []) s1
                else Ok (elem, [task]) s1)
         else Ok (elem, [task]) s1)"
proof -
  let ?s1 = "s\<lparr>arrays := (arrays s)(arrayCount s := arrays s rc @ [refUrl]),
               arrayCount := Suc (arrayCount s)\<rparr>"
  have p: "parseUrl E ?s1 v refUrl = parseUrl E s v refUrl"
    by (rule parseUrl_store) simp
  show ?thesis
    using assms
    by (simp add: rewriteFrame_def bindM_def childChain_eq getState_def p Let_def returnM_def
        liftE_def throwM_def arrayIncludes_def split: sum.splits)
qed

lemma frame_names:
  "lit ''frame'' \<notin> {lit ''meta'', lit ''link'', lit ''style'', lit ''script'', lit ''body'',
       lit ''table'', lit ''tr'', lit ''th'', lit ''td''}"
  "lit ''iframe'' \<notin> {lit ''meta'', lit ''link'', lit ''style'', lit ''script'', lit ''body'',
       lit ''table'', lit ''tr'', lit ''th'', lit ''td''}"
  by (simp_all add: lit_simps)

lemma rewriteByName_frame:
  assumes "toLowerCase E (nodeName elem) = lit ''frame'' \<or> toLowerCase E (nodeName elem) = lit ''iframe''"
  shows "rewriteByName E fp pcf inZipPath refUrl rc elem = rewriteFrame E fp refUrl rc elem"
  using assms frame_names by (auto simp: rewriteByName_def Let_def)

lemma rewriteNode_frame:
  assumes "toLowerCase E (nodeName elem) = lit ''frame'' \<or> toLowerCase E (nodeName elem) = lit ''iframe''"
    and "rootName \<noteq> lit ''svg''" "rootName \<noteq> lit ''math''"
  shows "rewriteNode E fp pcf inZipPath refUrl rc elem rootName =
           bindM (rewriteFrame E fp refUrl rc elem)
             (\<lambda>(elem1, tasks). returnM (elem1, tasks @ styleAttrTasks E pcf refUrl rc elem1))"
  using assms by (simp add: rewriteNode_def rewriteByName_frame)


lemma getAttribute_rewriteAttr:
  "b \<noteq> a \<Longrightarrow> getAttribute (rewriteAttr E st refUrl a elem) b = getAttribute elem b"
  by (simp add: rewriteAttr_def getAttribute_setAttribute_other split: option.splits)

lemma getAttribute_rewriteSrcsetAttr:
  "b \<noteq> lit ''srcset'' \<Longrightarrow> getAttribute (rewriteSrcsetAttr E st refUrl elem) b = getAttribute elem b"
  by (simp add: rewriteSrcsetAttr_def getAttribute_setAttribute_other split: option.splits)

lemma style_neq:
  "lit ''style'' \<noteq> lit ''background''" "lit ''style'' \<noteq> lit ''href''" "lit ''style'' \<noteq> lit ''src''"
  "lit ''style'' \<noteq> lit ''srcset''" "lit ''style'' \<noteq> lit ''poster''" "lit ''style'' \<noteq> lit ''action''"
  "lit ''style'' \<noteq> lit ''xlink:href''"
  by (simp_all add: lit_simps)

text \<open>
  Outside the task names and \<open>frame\<close> and \<open>iframe\<close>, the \<open>switch\<close> only rewrites
  attributes: it starts no task and leaves the viewer's data as they are.
\<close>

lemma rewriteByName_plain:
  assumes "toLowerCase E (nodeName elem) \<notin> taskNames"
    and "toLowerCase E (nodeName elem) \<noteq> lit ''frame''" "toLowerCase E (nodeName elem) \<noteq> lit ''iframe''"
  shows "\<exists>elem1. rewriteByName E fp pcf inZipPath refUrl rc elem s = Ok (elem1, []) s \<and>
           getAttribute elem1 (lit ''style'') = getAttribute elem (lit ''style'')"
  using assms
  by (simp add: rewriteByName_def taskNames_def Let_def bindM_def getState_def returnM_def
      getAttribute_rewriteAttr getAttribute_rewriteSrcsetAttr rewriteLinkAttr_other style_neq)


lemma styleAttrTasks_none:
  "getAttribute elem (lit ''style'') = None \<Longrightarrow> styleAttrTasks E pcf refUrl rc elem = []"
  by (simp add: styleAttrTasks_def)

text \<open>
  For an element of a plain tree \<open>rewriteNode\<close> ends, and the tasks it has started are
  fetches of framed pages: each with the chain followed by \<open>refUrl\<close>, in a new array, and
  for a page of the store only if that page is not in this chain.
\<close>

lemma rewriteNode_plain:
  assumes plain: "toLowerCase E (nodeName elem) \<notin> taskNames"
      "getAttribute elem (lit ''style'') = None"
  shows "ends True (rewriteNode E fp pcf inZipPath refUrl rc elem rootName) s \<and>
         (\<forall>elem1 tasks s1.
            rewriteNode E fp pcf inZipPath refUrl rc elem rootName s = Ok (elem1, tasks) s1 \<longrightarrow>
            (\<forall>t \<in> set tasks. \<exists>q url chg.
               t = bindM (fp q url (arrayCount s)) (\<lambda>fetchedUrl. returnM (chg fetchedUrl)) \<and>
               arrayCount s < arrayCount s1 \<and>
               arrays s1 (arrayCount s) = arrays s rc @ [refUrl] \<and>
               (\<forall>p. q = Some p \<longrightarrow>
                  p \<in> dom (inZipFiles s) \<and>
                  (\<exists>u. inZipPathToUrl (virtualBase E) (Some p) = Inr u \<and>
                       u \<notin> set (arrays s rc @ [refUrl])))))"
proof -
  consider (foreign) "rootName = lit ''svg'' \<or> rootName = lit ''math''"
    | (frame) "rootName \<noteq> lit ''svg''" "rootName \<noteq> lit ''math''"
        "toLowerCase E (nodeName elem) = lit ''frame'' \<or> toLowerCase E (nodeName elem) = lit ''iframe''"
    | (other) "rootName \<noteq> lit ''svg''" "rootName \<noteq> lit ''math''"
        "toLowerCase E (nodeName elem) \<noteq> lit ''frame''" "toLowerCase E (nodeName elem) \<noteq> lit ''iframe''"
    by blast
  then show ?thesis
  proof cases
    case foreign
    then show ?thesis
      by (auto simp: rewriteNode_def bindM_def getState_def returnM_def ends_def extends_refl)
  next
    case other
    obtain elem1 where
      e: "rewriteByName E fp pcf inZipPath refUrl rc elem s = Ok (elem1, []) s"
        "getAttribute elem1 (lit ''style'') = getAttribute elem (lit ''style'')"
      using rewriteByName_plain [OF plain(1) other(3,4)] by blast
    show ?thesis
      using other(1,2) e plain(2)
      by (simp add: rewriteNode_def bindM_def returnM_def styleAttrTasks_none ends_def extends_refl)
  next
    case frame
    note node = rewriteNode_frame [OF frame(3) frame(1,2)]
    show ?thesis
    proof (cases "getAttribute elem (lit ''src'')")
      case None
      then show ?thesis
        using plain(2)
        by (simp add: node rewriteFrame_def bindM_def returnM_def styleAttrTasks_none ends_def
            extends_refl)
    next
      case (Some v)
      let ?info = "parseUrl E s v refUrl"
      let ?s1 = "s\<lparr>arrays := (arrays s)(arrayCount s := arrays s rc @ [refUrl]),
                   arrayCount := Suc (arrayCount s)\<rparr>"
      let ?chg = "\<lambda>fetchedUrl e. setAttribute e (lit ''src'') (orElse fetchedUrl (info_url ?info))"
      let ?task = "bindM (fp (info_inZipPath ?info) (info_url ?info) (arrayCount s))
                     (\<lambda>fetchedUrl. returnM (?chg fetchedUrl))"
      have ext: "extends s ?s1" by (simp add: extends_def)
      have st: "getAttribute (setAttribute elem (lit ''src'') x) (lit ''style'') = None" for x
        using plain(2) by (simp add: getAttribute_setAttribute_other style_neq)
      have with_task: ?thesis
        if rf: "rewriteFrame E fp refUrl rc elem s = Ok (elem, [?task]) ?s1"
          and q: "\<forall>p. info_inZipPath ?info = Some p \<longrightarrow>
                    p \<in> dom (inZipFiles s) \<and>
                    (\<exists>u. inZipPathToUrl (virtualBase E) (Some p) = Inr u \<and>
                         u \<notin> set (arrays s rc @ [refUrl]))"
      proof -
        have rn: "rewriteNode E fp pcf inZipPath refUrl rc elem rootName s = Ok (elem, [?task]) ?s1"
          using rf plain(2) by (simp add: node bindM_def returnM_def styleAttrTasks_none)
        have "\<exists>q url chg.
               ?task = bindM (fp q url (arrayCount s)) (\<lambda>fetchedUrl. returnM (chg fetchedUrl)) \<and>
               arrayCount s < arrayCount ?s1 \<and>
               arrays ?s1 (arrayCount s) = arrays s rc @ [refUrl] \<and>
               (\<forall>p. q = Some p \<longrightarrow>
                  p \<in> dom (inZipFiles s) \<and>
                  (\<exists>u. inZipPathToUrl (virtualBase E) (Some p) = Inr u \<and>
                       u \<notin> set (arrays s rc @ [refUrl])))"
          using q by (intro exI [of _ "info_inZipPath ?info"] exI [of _ "info_url ?info"]
              exI [of _ ?chg]) simp
        then show ?thesis
          using ext by (simp add: rn ends_def)
      qed
      show ?thesis
      proof (cases "info_inZip ?info")
        case False
        then have q: "info_inZipPath ?info = None" by (rule parseUrl_notInZip_path)
        show ?thesis
          using False q by (intro with_task) (simp_all add: rewriteFrame_eq [OF Some] Let_def)
      next
        case True
        obtain p f where p: "info_inZipPath ?info = Some p" "inZipFiles s p = Some f"
          using parseUrl_inZip [OF True] by blast
        show ?thesis
        proof (cases "inZipPathToUrl (virtualBase E) (Some p)")
          case (Inl e)
          then show ?thesis
            using True p ext
            by (simp add: node rewriteFrame_eq [OF Some] bindM_def Let_def ends_def)
        next
          case (Inr targetUrl)
          show ?thesis
          proof (cases "targetUrl \<in> set (arrays s rc @ [refUrl])")
            case circular: True
            then show ?thesis
              using True p Inr ext st
              by (simp add: node rewriteFrame_eq [OF Some] bindM_def returnM_def Let_def
                  styleAttrTasks_none ends_def)
          next
            case False
            then show ?thesis
              using True p Inr
              by (intro with_task) (auto simp: rewriteFrame_eq [OF Some] Let_def)
          qed
        qed
      qed
    qed
  qed
qed


lemma unvisited_extends: "extends s s' \<Longrightarrow> unvisited E s' chain = unvisited E s chain"
  by (simp add: unvisited_def extends_def)

lemma unvisited_decrease:
  assumes "finite (dom (inZipFiles s))" and "p \<in> dom (inZipFiles s)"
    and "inZipPathToUrl (virtualBase E) (Some p) = Inr u" and "u \<notin> set chain"
  shows "card (unvisited E s (chain @ [u])) < card (unvisited E s chain)"
proof -
  have "unvisited E s (chain @ [u]) \<subseteq> unvisited E s chain"
    by (auto simp: unvisited_def)
  moreover have "p \<in> unvisited E s chain" "p \<notin> unvisited E s (chain @ [u])"
    using assms by (auto simp: unvisited_def)
  ultimately have "unvisited E s (chain @ [u]) \<subset> unvisited E s chain" by blast
  moreover have "finite (unvisited E s chain)"
    using assms(1) by (simp add: unvisited_def)
  ultimately show ?thesis by (rule psubset_card_mono [rotated])
qed


lemma runTasks_ends:
  assumes "\<And>task s'. task \<in> set tasks \<Longrightarrow> extends s1 s' \<Longrightarrow> ends t task s'"
    and "extends s1 s"
  shows "ends t (runTasks tasks elem) s"
  using assms
proof (induction tasks arbitrary: s elem)
  case Nil
  then show ?case by (simp add: ends_returnM)
next
  case (Cons task tasks)
  show ?case
    unfolding runTasks.simps
  proof (rule ends_bindM)
    show "ends t task s" using Cons.prems by simp
  next
    fix change s'
    assume "extends s s'"
    then have "extends s1 s'" using Cons.prems(2) extends_trans by blast
    then show "ends t (runTasks tasks (change elem)) s'"
      using Cons.IH Cons.prems(1) by simp
  qed
qed

text \<open>
  The tasks that \<open>rewriteNode\<close> starts for an element of a plain tree end in every state
  that extends the one they were started in, when the document is rewritten from \<open>s0\<close>
  with at most \<open>m\<close> unvisited paths once its own URL is in the chain.
\<close>

lemma frame_task_ends:
  assumes fp: "fetchEnds E t m fp"
    and base: "t \<longrightarrow> finite (dom (inZipFiles s0)) \<and> rc < arrayCount s0 \<and>
                 card (unvisited E s0 (arrays s0 rc @ [refUrl])) \<le> m"
    and s: "extends s0 s"
    and plain: "toLowerCase E (nodeName elem) \<notin> taskNames" "getAttribute elem (lit ''style'') = None"
    and node: "rewriteNode E fp pcf inZipPath refUrl rc elem rootName s = Ok (elem1, tasks) s1"
    and task: "task \<in> set tasks" and s': "extends s1 s'"
  shows "ends t task s'"
proof -
  from rewriteNode_plain [OF plain, of fp pcf inZipPath refUrl rc rootName s] node task
  obtain q url chg where
    tk: "task = bindM (fp q url (arrayCount s)) (\<lambda>fetchedUrl. returnM (chg fetchedUrl))"
    and c: "arrayCount s < arrayCount s1" "arrays s1 (arrayCount s) = arrays s rc @ [refUrl]"
    and q: "\<forall>p. q = Some p \<longrightarrow>
              p \<in> dom (inZipFiles s) \<and>
              (\<exists>u. inZipPathToUrl (virtualBase E) (Some p) = Inr u \<and>
                   u \<notin> set (arrays s rc @ [refUrl]))"
    by blast
  have "fetchable E m s' q (arrayCount s)" if t
  proof -
    from base that have fin: "finite (dom (inZipFiles s0))" and rc: "rc < arrayCount s0"
      and le: "card (unvisited E s0 (arrays s0 rc @ [refUrl])) \<le> m" by simp_all
    have "ends True (rewriteNode E fp pcf inZipPath refUrl rc elem rootName) s"
      using rewriteNode_plain [OF plain] by blast
    then have "extends s s1" using node by (simp add: ends_def)
    then have s0s': "extends s0 s'" using s s' extends_trans by blast
    have dom: "inZipFiles s' = inZipFiles s0" "inZipFiles s = inZipFiles s0"
      using s0s' s by (simp_all add: extends_def)
    have a1: "arrays s' (arrayCount s) = arrays s rc @ [refUrl]"
      using s' c by (simp add: extends_def)
    have a2: "arrays s rc = arrays s0 rc"
      using s rc by (simp add: extends_def)
    have "card (unvisited E s' (arrays s' (arrayCount s) @ [u])) < m"
      if "q = Some p" "p \<in> dom (inZipFiles s')" "inZipPathToUrl (virtualBase E) (Some p) = Inr u" for p u
    proof -
      have "u \<notin> set (arrays s0 rc @ [refUrl])"
        using q that a2 by auto
      moreover have "finite (dom (inZipFiles s'))" using fin dom by simp
      ultimately have "card (unvisited E s' ((arrays s0 rc @ [refUrl]) @ [u])) <
                 card (unvisited E s' (arrays s0 rc @ [refUrl]))"
        using that(2,3) by (intro unvisited_decrease)
      also have "\<dots> = card (unvisited E s0 (arrays s0 rc @ [refUrl]))"
        using unvisited_extends [OF s0s'] by simp
      finally show ?thesis using le a1 a2 by simp
    qed
    moreover have "arrayCount s < arrayCount s'"
      using c(1) s' by (simp add: extends_def)
    ultimately show ?thesis
      using fin dom by (simp add: fetchable_def)
  qed
  then have "ends t (fp q url (arrayCount s)) s'"
    using fp by (simp add: fetchEnds_def)
  then show ?thesis
    unfolding tk by (rule ends_bindM) (rule ends_returnM)
qed

text \<open>Rewriting a plain tree ends when the fetches of its framed pages do.\<close>

lemma rewriteRecursively_plain:
  assumes fp: "fetchEnds E t m fp"
    and base: "t \<longrightarrow> finite (dom (inZipFiles s0)) \<and> rc < arrayCount s0 \<and>
                 card (unvisited E s0 (arrays s0 rc @ [refUrl])) \<le> m"
  shows "plainTree E elem \<Longrightarrow> extends s0 s \<Longrightarrow>
           ends t (rewriteRecursively E (rewriteNode E fp pcf inZipPath refUrl rc) elem rootName) s"
proof (induction elem arbitrary: s rootName)
  case (TextNode x)
  then show ?case by (simp add: ends_returnM)
next
  case (Element n as cs)
  let ?cb = "rewriteNode E fp pcf inZipPath refUrl rc"
  have plain: "toLowerCase E (nodeName (Element n as cs)) \<notin> taskNames"
      "getAttribute (Element n as cs) (lit ''style'') = None"
    using Element.prems(1) by simp_all
  have children: "ends t (rewriteChildren E ?cb cs' rn) s'"
    if "set cs' \<subseteq> set cs" "extends s0 s'" for cs' rn s'
    using that
  proof (induction cs' arbitrary: s')
    case Nil
    then show ?case by (simp add: ends_returnM)
  next
    case (Cons c cs')
    have c: "c \<in> set cs" "plainTree E c" using Cons.prems(1) Element.prems(1) by auto
    show ?case
      unfolding rewriteChildren.simps
    proof (rule ends_bindM)
      show "ends t (rewriteRecursively E ?cb c rn) s'"
        using Element.IH [OF c(1) c(2) Cons.prems(2)] .
    next
      fix c' s1
      assume "extends s' s1"
      then have e: "extends s0 s1" using Cons.prems(2) extends_trans by blast
      show "ends t (bindM (rewriteChildren E ?cb cs' rn) (\<lambda>cs'. returnM (c' # cs'))) s1"
        by (rule ends_bindM) (use Cons.IH Cons.prems(1) e in \<open>simp_all add: ends_returnM\<close>)
    qed
  qed
  define rn where "rn = (if toLowerCase E n \<in> {lit ''svg'', lit ''math''} then toLowerCase E n else rootName)"
  have "ends t (bindM (?cb (Element n as cs) rn) (\<lambda>(result, tasks).
          bindM (if childNodes result = cs then rewriteChildren E ?cb cs rn
                 else returnM (childNodes result)) (\<lambda>children.
          runTasks tasks (setChildNodes result children)))) s"
  proof (rule ends_bindM)
    show "ends t (?cb (Element n as cs) rn) s"
      using rewriteNode_plain [OF plain] ends_total by blast
  next
    fix x s1
    assume node: "?cb (Element n as cs) rn s = Ok x s1" and ss1: "extends s s1"
    obtain result tasks where x: "x = (result, tasks)" by (cases x)
    have e1: "extends s0 s1" using Element.prems(2) ss1 extends_trans by blast
    have "ends t (bindM (if childNodes result = cs then rewriteChildren E ?cb cs rn
                 else returnM (childNodes result)) (\<lambda>children.
          runTasks tasks (setChildNodes result children))) s1"
    proof (rule ends_bindM)
      show "ends t (if childNodes result = cs then rewriteChildren E ?cb cs rn
                    else returnM (childNodes result)) s1"
        using children [OF subset_refl e1] by (simp add: ends_returnM)
    next
      fix children s2
      assume "extends s1 s2"
      then show "ends t (runTasks tasks (setChildNodes result children)) s2"
        using frame_task_ends [OF fp base Element.prems(2) plain node [unfolded x]]
        by (intro runTasks_ends [where ?s1.0 = s1]) auto
    qed
    then show "ends t (case x of (result, tasks) \<Rightarrow>
          bindM (if childNodes result = cs then rewriteChildren E ?cb cs rn
                 else returnM (childNodes result)) (\<lambda>children.
          runTasks tasks (setChildNodes result children))) s1"
      by (simp add: x)
  qed
  moreover have "rewriteRecursively E ?cb (Element n as cs) rootName =
      bindM (?cb (Element n as cs) rn) (\<lambda>(result, tasks).
          bindM (if childNodes result = cs then rewriteChildren E ?cb cs rn
                 else returnM (childNodes result)) (\<lambda>children.
          runTasks tasks (setChildNodes result children)))"
    unfolding rn_def by (simp add: Let_def)
  ultimately show ?case by simp
qed

lemma liftE_Ok: "liftE r s = Ok x s' \<Longrightarrow> r = Inr x \<and> s' = s"
  by (cases r) (auto simp: liftE_def throwM_def returnM_def)

lemma ends_head_insertions:
  "ends t (if C then
             bindM (if hasCsp E then insertDeApiScript E root1 else returnM root1) (\<lambda>root2.
               insertBeforeHeadFirstChild E new root2)
           else returnM root1) s"
proof (cases C)
  case True
  have "ends t (if hasCsp E then insertDeApiScript E root1 else returnM root1) s"
    by (simp add: ends_insertDeApiScript ends_returnM)
  then have "ends t (bindM (if hasCsp E then insertDeApiScript E root1 else returnM root1)
               (\<lambda>root2. insertBeforeHeadFirstChild E new root2)) s"
    by (rule ends_bindM) (rule ends_insertBeforeHeadFirstChild)
  then show ?thesis using True by simp
next
  case False
  then show ?thesis by (simp add: ends_returnM)
qed

lemma finishDocument_ends: "ends t (finishDocument E doc root1) s"
  unfolding finishDocument_def
  by (rule ends_bindM) (rule ends_head_insertions, rule ends_returnM)

lemma parseDocument_plain:
  assumes fp: "fetchEnds E t m fp"
    and plain: "plainTree E (documentElement doc)"
    and base: "t \<longrightarrow> finite (dom (inZipFiles s)) \<and> rc < arrayCount s \<and>
                 (\<forall>u. inZipPathToUrl (virtualBase E) inZipPath = Inr u \<longrightarrow>
                      card (unvisited E s (arrays s rc @ [u])) \<le> m)"
  shows "ends t (parseDocument E fp pcf doc inZipPath rc) s"
  unfolding parseDocument_def Let_def
proof (rule ends_bindM)
  show "ends t (liftE (inZipPathToUrl (virtualBase E) inZipPath)) s"
    by (rule ends_liftE)
next
  fix refUrl s'
  assume a: "liftE (inZipPathToUrl (virtualBase E) inZipPath) s = Ok refUrl s'"
  have r: "inZipPathToUrl (virtualBase E) inZipPath = Inr refUrl"
    using liftE_Ok [OF a] by simp
  have s': "s' = s"
    using liftE_Ok [OF a] by simp
  have b: "t \<longrightarrow> finite (dom (inZipFiles s)) \<and> rc < arrayCount s \<and>
             card (unvisited E s (arrays s rc @ [refUrl])) \<le> m"
    using base r by blast
  have w: "ends t (rewriteRecursively E (rewriteNode E fp pcf inZipPath refUrl rc) (documentElement doc)
             (toLowerCase E (nodeName (documentElement doc)))) s"
    using rewriteRecursively_plain [OF fp b plain extends_refl] .
  have "ends t
     (bindM (rewriteRecursively E (rewriteNode E fp pcf inZipPath refUrl rc) (documentElement doc)
               (toLowerCase E (nodeName (documentElement doc)))) (finishDocument E doc)) s"
    using w by (rule ends_bindM) (rule finishDocument_ends)
  then show "ends t
     (bindM (rewriteRecursively E (rewriteNode E fp pcf inZipPath refUrl rc) (documentElement doc)
               (toLowerCase E (nodeName (documentElement doc)))) (finishDocument E doc)) s'"
    by (simp only: s')
qed

lemma fetchFile_ends:
  assumes "\<And>p f u. q = Some p \<Longrightarrow> inZipFiles s p = Some f \<Longrightarrow>
             inZipPathToUrl (virtualBase E) (Some p) = Inr u \<Longrightarrow>
             ends t (rf \<lparr>rp_data = entryFile f, rp_url = u, rp_recurseChain = c\<rparr>) s"
  shows "ends t (fetchFile E q (Some rf) c) s"
proof (cases q)
  case None
  then show ?thesis
    by (simp add: fetchFile_def bindM_def getState_def returnM_def ends_def extends_refl)
next
  case (Some p')
  show ?thesis
  proof (cases "inZipFiles s p'")
    case None
    then show ?thesis
      using Some by (simp add: fetchFile_def bindM_def getState_def returnM_def ends_def extends_refl)
  next
    case f: (Some f)
    have "fetchFile E q (Some rf) c s =
        bindM (liftE (inZipPathToUrl (virtualBase E) q)) (\<lambda>url.
        bindM (rf \<lparr>rp_data = entryFile f, rp_url = url, rp_recurseChain = c\<rparr>) (\<lambda>rewrittenFile.
        bindM (createObjectURL E rewrittenFile) (\<lambda>u.
        bindM (recordRewritten u p') (\<lambda>_. returnM (Some u))))) s"
      using Some f by (simp add: fetchFile_def bindM_def getState_def)
    moreover have "ends t (bindM (liftE (inZipPathToUrl (virtualBase E) q)) (\<lambda>url.
        bindM (rf \<lparr>rp_data = entryFile f, rp_url = url, rp_recurseChain = c\<rparr>) (\<lambda>rewrittenFile.
        bindM (createObjectURL E rewrittenFile) (\<lambda>u.
        bindM (recordRewritten u p') (\<lambda>_. returnM (Some u)))))) s"
    proof (rule ends_bindM)
      show "ends t (liftE (inZipPathToUrl (virtualBase E) q)) s" by (rule ends_liftE)
    next
      fix url s'
      assume a: "liftE (inZipPathToUrl (virtualBase E) q) s = Ok url s'"
      have u: "inZipPathToUrl (virtualBase E) q = Inr url"
        using liftE_Ok [OF a] by simp
      have s': "s' = s"
        using liftE_Ok [OF a] by simp
      have "ends t (rf \<lparr>rp_data = entryFile f, rp_url = url, rp_recurseChain = c\<rparr>) s'"
        using assms [of p' f url] Some f u s' by simp
      then show "ends t (bindM (rf \<lparr>rp_data = entryFile f, rp_url = url, rp_recurseChain = c\<rparr>)
          (\<lambda>rewrittenFile.
             bindM (createObjectURL E rewrittenFile) (\<lambda>u.
             bindM (recordRewritten u p') (\<lambda>_. returnM (Some u))))) s'"
        by (intro ends_bindM ends_createObjectURL ends_recordRewritten ends_returnM)
    qed
    ultimately show ?thesis by (simp add: ends_def)
  qed
qed


lemma pageRewriteFunc_ends:
  assumes fp: "fetchEnds E t m fp"
    and docs: "\<forall>b doc. readFileAsDocument E b = Some doc \<longrightarrow> plainTree E (documentElement doc)"
    and base: "t \<longrightarrow> finite (dom (inZipFiles s)) \<and> rp_recurseChain params < arrayCount s \<and>
                 (\<forall>u. inZipPathToUrl (virtualBase E) q = Inr u \<longrightarrow>
                      card (unvisited E s (arrays s (rp_recurseChain params) @ [u])) \<le> m)"
  shows "ends t (pageRewriteFunc E (parseDocument E fp pcf) q params) s"
proof -
  have "ends t (catchM
          (case readFileAsDocument E (rp_data params) of
             None \<Rightarrow> throwM DocumentError
           | Some doc \<Rightarrow> parseDocument E fp pcf doc q (rp_recurseChain params))
          (\<lambda>ex. returnM (rp_data params))) s"
  proof (rule ends_catchM)
    show "ends t (case readFileAsDocument E (rp_data params) of
             None \<Rightarrow> throwM DocumentError
           | Some doc \<Rightarrow> parseDocument E fp pcf doc q (rp_recurseChain params)) s"
    proof (cases "readFileAsDocument E (rp_data params)")
      case None
      then show ?thesis by (simp add: ends_throwM)
    next
      case (Some doc)
      then have "plainTree E (documentElement doc)" using docs by blast
      from parseDocument_plain [OF fp this base] show ?thesis using Some by simp
    qed
  next
    fix e s'
    show "ends t (returnM (rp_data params)) s'" by (rule ends_returnM)
  qed
  then show ?thesis
    by (simp add: pageRewriteFunc_def Let_def ends_returnM)
qed

text \<open>One more level of \<open>fetchPage\<close> ends for calls with one more unvisited path.\<close>

lemma fetchPage_step:
  assumes fp: "fetchEnds E t m fp"
    and docs: "\<forall>b doc. readFileAsDocument E b = Some doc \<longrightarrow> plainTree E (documentElement doc)"
  shows "fetchEnds E t (Suc m) (fetchPage E (parseDocument E fp pcf))"
  unfolding fetchEnds_def
proof (intro allI impI)
  fix s q url c
  assume g: "t \<longrightarrow> fetchable E (Suc m) s q c"
  have "ends t (fetchFile E q (Some (pageRewriteFunc E (parseDocument E fp pcf) q)) c) s"
  proof (rule fetchFile_ends)
    fix p f u
    assume q: "q = Some p" and f: "inZipFiles s p = Some f"
      and u: "inZipPathToUrl (virtualBase E) (Some p) = Inr u"
    have "t \<longrightarrow> finite (dom (inZipFiles s)) \<and> c < arrayCount s \<and>
            (\<forall>u'. inZipPathToUrl (virtualBase E) q = Inr u' \<longrightarrow>
                 card (unvisited E s (arrays s c @ [u'])) \<le> m)"
      using g q f u by (auto simp: fetchable_def less_Suc_eq_le)
    then show "ends t (pageRewriteFunc E (parseDocument E fp pcf) q
                 \<lparr>rp_data = entryFile f, rp_url = u, rp_recurseChain = c\<rparr>) s"
      by (intro pageRewriteFunc_ends [OF fp docs]) simp
  qed
  then show "ends t (fetchPage E (parseDocument E fp pcf) q url c) s"
    unfolding fetchPage_def Let_def by (rule ends_bindM) (rule ends_returnM)
qed


lemma viewer_fetchPage_keeps:
  assumes docs: "\<forall>b doc. readFileAsDocument E b = Some doc \<longrightarrow> plainTree E (documentElement doc)"
  shows "fetchEnds E False m (viewer_fetchPage E n)"
proof (induction n arbitrary: m)
  case 0
  show ?case by (simp add: fetchEnds_def ends_def)
next
  case (Suc n)
  from fetchPage_step [OF Suc.IH docs, of 0 "viewer_processCssFile E n"]
  show ?case by (simp add: fetchEnds_def)
qed







end
